theory Spec2Isabelle
  imports Complex_Main "HOL-Library.AList"
begin

section \<open>The configuration tree of synflownet/config.py\<close>

text \<open>
  The module declares two dataclasses (\<^verbatim>\<open>OptimizerConfig\<close>, \<^verbatim>\<open>Config\<close>) and two
  recursive walks over instances of such classes: \<^verbatim>\<open>init_empty\<close> and
  \<^verbatim>\<open>override_config\<close>. Both mutate the instance they are given and return it.

  The embedding has two layers. In the first one an instance is a tree: a node carries its
  class and its attribute table, and a nested instance is a subtree. This is the reading of
  the data model in which every node owns its children exclusively, and it is the layer on
  which the behaviour of both walks is stated. The second layer is an explicit store of
  objects with references between them; it is used for the statements that are about the
  identity of objects (which node is returned, which nodes are new).
\<close>

subsection \<open>Values\<close>

text \<open>
  Modelled from the spec: \<^verbatim>\<open>MISSING\<close> is imported from the package \<^verbatim>\<open>omegaconf\<close>, whose
  source is not part of the module. The spec describes it as one sentinel value, different
  from every value a user supplies, so it is a constructor of its own among the scalars.

  Floats are only stored and compared by the code, never computed with, so a float is
  represented by the number its literal denotes.
\<close>

datatype scalar = MISSING | PyNone | PyBool bool | PyInt int | PyFloat real | PyStr string

text \<open>
  A dataclass: its name and its declared fields in declaration order. A field has a name,
  a declared type (\<^verbatim>\<open>f.type\<close>: either an annotation that is not a dataclass, kept as
  text, or a dataclass) and a default: a plain default value or
  \<^verbatim>\<open>field(default_factory=SomeDataclass)\<close>. Every field of \<^verbatim>\<open>config.py\<close> has one of
  the two, so \<^verbatim>\<open>f.type()\<close> constructs an instance without arguments.
\<close>

datatype cls = Cls (cname: string) (cfields: "field list")
and field = MkField (fname: string) (ftype: ftype) (fdefault: dflt)
and ftype = TScalar string | TClass cls
and dflt = Default scalar | DefaultFactory cls

text \<open>
  A value: a scalar, a mapping (a Python \<^verbatim>\<open>dict\<close> with string keys, in insertion order),
  or an instance of a dataclass with its attribute table.
\<close>

datatype val = Scalar scalar | Dict "(string \<times> val) list" | Obj cls "(string \<times> val) list"

text \<open>
  The exceptions, under the names the spec gives them. In Python all three surface as
  built-in exceptions: an attribute that does not exist (\<^verbatim>\<open>AttributeError\<close>) is
  \<open>UnknownFieldError\<close>; calling \<^verbatim>\<open>.items()\<close> on a value that is not a mapping
  (\<^verbatim>\<open>AttributeError\<close>) is \<open>TypeMismatchError\<close>; \<^verbatim>\<open>fields\<close> applied to something that is
  not a dataclass (\<^verbatim>\<open>TypeError\<close>) is \<open>NotADataclass\<close>.
\<close>

datatype error = UnknownFieldError | TypeMismatchError | NotADataclass

subsection \<open>Dataclass primitives\<close>

text \<open>\<^verbatim>\<open>f.type()\<close>: the generated constructor fills every field with its default.\<close>

fun default_instance :: "cls \<Rightarrow> val"
and default_attrs :: "field list \<Rightarrow> (string \<times> val) list"
and default_value :: "dflt \<Rightarrow> val" where
  "default_instance (Cls n fs) = Obj (Cls n fs) (default_attrs fs)"
| "default_attrs [] = []"
| "default_attrs (MkField name ty d # fs) = (name, default_value d) # default_attrs fs"
| "default_value (Default s) = Scalar s"
| "default_value (DefaultFactory c) = default_instance c"

text \<open>
  \<^verbatim>\<open>is_dataclass\<close> on a value. On a declared type, \<^verbatim>\<open>is_dataclass(f.type)\<close> is the
  distinction between \<open>TClass\<close> and \<open>TScalar\<close>.
\<close>

fun is_dataclass :: "val \<Rightarrow> bool" where
  "is_dataclass (Obj c attrs) = True"
| "is_dataclass v = False"

fun fields :: "val \<Rightarrow> error + field list" where
  "fields (Obj c attrs) = Inr (cfields c)"
| "fields v = Inl NotADataclass"

fun class_of :: "val \<Rightarrow> cls option" where
  "class_of (Obj c attrs) = Some c"
| "class_of v = None"

definition declared :: "cls \<Rightarrow> string \<Rightarrow> bool" where
  "declared c name = (name \<in> set (map fname (cfields c)))"

text \<open>
  Modelled from the spec: \<^verbatim>\<open>StrictDataClass\<close> (\<^verbatim>\<open>synflownet.utils.misc\<close>) is not among
  the sources. The spec's contract for it: reading or writing a name that is not a declared
  field of the node's schema fails with \<open>UnknownFieldError\<close>. Reading a declared name
  returns what the attribute table holds; writing one replaces the entry.
\<close>

fun getattr :: "val \<Rightarrow> string \<Rightarrow> error + val" where
  "getattr (Obj c attrs) name =
     (if declared c name then
        (case map_of attrs name of Some v \<Rightarrow> Inr v | None \<Rightarrow> Inl UnknownFieldError)
      else Inl UnknownFieldError)"
| "getattr v name = Inl UnknownFieldError"

fun setattr :: "val \<Rightarrow> string \<Rightarrow> val \<Rightarrow> error + val" where
  "setattr (Obj c attrs) name v =
     (if declared c name then Inr (Obj c (AList.update name v attrs))
      else Inl UnknownFieldError)"
| "setattr w name v = Inl UnknownFieldError"

text \<open>\<^verbatim>\<open>overrides.items()\<close>: only a mapping has items.\<close>

fun items :: "val \<Rightarrow> error + (string \<times> val) list" where
  "items (Dict m) = Inr m"
| "items v = Inl TypeMismatchError"

subsection \<open>init\_empty\<close>

text \<open>
  \<^verbatim>\<open>
  def init_empty(cfg):
      for f in fields(cfg):
          if is_dataclass(f.type):
              setattr(cfg, f.name, init_empty(f.type()))
          else:
              setattr(cfg, f.name, MISSING)
      return cfg
  \<close>
  The loop is \<open>init_empty_loop\<close>, with the fields still to visit and the node as the
  loop has left it so far.
\<close>

function init_empty :: "val \<Rightarrow> error + val"
and init_empty_loop :: "field list \<Rightarrow> val \<Rightarrow> error + val" where
  "init_empty cfg =
     (case fields cfg of Inl e \<Rightarrow> Inl e | Inr fs \<Rightarrow> init_empty_loop fs cfg)"
| "init_empty_loop [] cfg = Inr cfg"
| "init_empty_loop (MkField name ty d # fs) cfg =
     (case ty of
        TClass c \<Rightarrow>
          (case init_empty (default_instance c) of
             Inl e \<Rightarrow> Inl e
           | Inr sub \<Rightarrow>
               (case setattr cfg name sub of
                  Inl e \<Rightarrow> Inl e
                | Inr cfg' \<Rightarrow> init_empty_loop fs cfg'))
      | TScalar a \<Rightarrow>
          (case setattr cfg name (Scalar MISSING) of
             Inl e \<Rightarrow> Inl e
           | Inr cfg' \<Rightarrow> init_empty_loop fs cfg'))"
  by pat_completeness auto
termination
proof (relation "measure (\<lambda>x. case x of
      Inl cfg \<Rightarrow> (case class_of cfg of Some c \<Rightarrow> size c | None \<Rightarrow> 0)
    | Inr (fs, cfg) \<Rightarrow> size_list size fs)", goal_cases)
  case 1
  show ?case by simp
next
  case (2 cfg fs)
  then show ?case by (cases cfg; cases "the (class_of cfg)") auto
next
  case (3 name ty d fs cfg a cfg')
  then show ?case by simp
next
  case (4 name ty d fs cfg c)
  then show ?case by (cases c) simp
next
  case (5 name ty d fs cfg c sub cfg')
  then show ?case by simp
qed

text \<open>The equation of \<open>init_empty\<close> is unfolded on request only.\<close>

declare init_empty.simps [simp del]

subsection \<open>override\_config\<close>

text \<open>
  \<^verbatim>\<open>
  def override_config(cfg, overrides):
      for key, value in overrides.items():
          if is_dataclass(getattr(cfg, key)):
              override_config(getattr(cfg, key), value)
          else:
              setattr(cfg, key, value)
      return cfg
  \<close>
  The call mutates \<^verbatim>\<open>cfg\<close> in place and an exception leaves the mutations made so far,
  so the model returns the node as the call leaves it together with the exception, if any.
  The recursive call mutates the child the parent refers to; in the tree the parent then
  holds the mutated child (\<open>with_child\<close>).
\<close>

fun with_child :: "val \<Rightarrow> string \<Rightarrow> val \<Rightarrow> val" where
  "with_child (Obj c attrs) key sub = Obj c (AList.update key sub attrs)"
| "with_child v key sub = v"

function override_config :: "val \<Rightarrow> val \<Rightarrow> val \<times> error option"
and override_config_loop :: "(string \<times> val) list \<Rightarrow> val \<Rightarrow> val \<times> error option" where
  "override_config cfg overrides =
     (case items overrides of
        Inl e \<Rightarrow> (cfg, Some e)
      | Inr kvs \<Rightarrow> override_config_loop kvs cfg)"
| "override_config_loop [] cfg = (cfg, None)"
| "override_config_loop ((key, value) # rest) cfg =
     (case getattr cfg key of
        Inl e \<Rightarrow> (cfg, Some e)
      | Inr cur \<Rightarrow>
          if is_dataclass cur then
            (case override_config cur value of
               (cur', Some e) \<Rightarrow> (with_child cfg key cur', Some e)
             | (cur', None) \<Rightarrow> override_config_loop rest (with_child cfg key cur'))
          else
            (case setattr cfg key value of
               Inl e \<Rightarrow> (cfg, Some e)
             | Inr cfg' \<Rightarrow> override_config_loop rest cfg'))"
  by pat_completeness auto
termination
proof (relation "measure (\<lambda>x. case x of
      Inl (cfg, overrides) \<Rightarrow> size overrides
    | Inr (kvs, cfg) \<Rightarrow> size_list (size_prod (\<lambda>k. 0) size) kvs)", goal_cases)
  case 1
  show ?case by simp
next
  case (2 cfg overrides kvs)
  then show ?case by (cases overrides) auto
qed auto

subsection \<open>Fields at every depth\<close>

text \<open>
  A field of a node at some depth is named by the path of field names that leads to it:
  \<^verbatim>\<open>cfg.opt.learning_rate\<close> is the path \<open>[''opt'', ''learning_rate'']\<close>. \<open>get_path\<close> reads
  along a path with \<open>getattr\<close>.
\<close>

fun get_path :: "val \<Rightarrow> string list \<Rightarrow> val option" where
  "get_path v [] = Some v"
| "get_path v (k # ks) = (case getattr v k of Inl e \<Rightarrow> None | Inr w \<Rightarrow> get_path w ks)"

text \<open>
  A path is mentioned by an overrides mapping when its last name is a key of the mapping
  found at the corresponding depth: \<open>[k]\<close> when \<open>k\<close> is a key, and \<open>k # ks\<close> when \<open>k\<close> is a
  key whose value is a mapping that mentions \<open>ks\<close>.
\<close>

fun mentioned :: "(string \<times> val) list \<Rightarrow> string list \<Rightarrow> bool" where
  "mentioned m [] = False"
| "mentioned [] (k # ks) = False"
| "mentioned ((key, value) # rest) [k] = (key = k \<or> mentioned rest [k])"
| "mentioned ((key, Dict m) # rest) (k # k' # ks) =
     ((key = k \<and> mentioned m (k' # ks)) \<or> mentioned rest (k # k' # ks))"
| "mentioned ((key, value) # rest) (k # k' # ks) = mentioned rest (k # k' # ks)"

text \<open>
  Python keeps the field names of a class distinct (a class body cannot declare a name
  twice); \<open>wf_cls\<close> says so for a class and for the classes of its nested fields.
\<close>

fun wf_cls :: "cls \<Rightarrow> bool"
and wf_fields :: "field list \<Rightarrow> bool" where
  "wf_cls (Cls n fs) = (distinct (map fname fs) \<and> wf_fields fs)"
| "wf_fields [] = True"
| "wf_fields (MkField name (TScalar a) d # fs) = wf_fields fs"
| "wf_fields (MkField name (TClass c) d # fs) = (wf_cls c \<and> wf_fields fs)"

text \<open>
  The all-\<^verbatim>\<open>MISSING\<close> state of a node of class \<open>c\<close>: the node is an instance of \<open>c\<close>,
  every field whose declared type is not a dataclass holds \<^verbatim>\<open>MISSING\<close>, and every field
  declared as a dataclass holds an instance of that dataclass in the all-\<^verbatim>\<open>MISSING\<close>
  state.
\<close>

fun all_missing :: "cls \<Rightarrow> val \<Rightarrow> bool"
and fields_missing :: "field list \<Rightarrow> (string \<times> val) list \<Rightarrow> bool" where
  "all_missing (Cls n fs) (Obj c attrs) = (c = Cls n fs \<and> fields_missing fs attrs)"
| "all_missing (Cls n fs) v = False"
| "fields_missing [] attrs = True"
| "fields_missing (MkField name (TScalar a) d # fs) attrs =
     (map_of attrs name = Some (Scalar MISSING) \<and> fields_missing fs attrs)"
| "fields_missing (MkField name (TClass c) d # fs) attrs =
     ((case map_of attrs name of Some v \<Rightarrow> all_missing c v | None \<Rightarrow> False)
      \<and> fields_missing fs attrs)"

text \<open>What one round of the loop of \<open>init_empty\<close> stores for a field of declared type \<open>ty\<close>.\<close>

fun blank_value :: "ftype \<Rightarrow> error + val" where
  "blank_value (TClass c) = init_empty (default_instance c)"
| "blank_value (TScalar a) = Inr (Scalar MISSING)"

text \<open>The attribute table after the loop of \<open>init_empty\<close> has visited the fields \<open>fs\<close>.\<close>

definition blank_attrs :: "field list \<Rightarrow> (string \<times> val) list \<Rightarrow> (string \<times> val) list" where
  "blank_attrs fs attrs = fold (\<lambda>f. AList.update (fname f) (projr (blank_value (ftype f)))) fs attrs"

text \<open>
  An overrides mapping conforms to a class when its keys are distinct (they are the keys
  of a \<^verbatim>\<open>dict\<close>), every key is a declared field, and the value given for a field
  declared as a dataclass is a mapping that conforms to that dataclass.
\<close>

function conforms :: "cls \<Rightarrow> (string \<times> val) list \<Rightarrow> bool"
and conforms_entries :: "cls \<Rightarrow> (string \<times> val) list \<Rightarrow> bool" where
  "conforms c m = (distinct (map fst m) \<and> conforms_entries c m)"
| "conforms_entries c [] = True"
| "conforms_entries c ((key, x) # rest) =
     ((case find (\<lambda>f. fname f = key) (cfields c) of
         None \<Rightarrow> False
       | Some f \<Rightarrow>
           (case ftype f of
              TScalar a \<Rightarrow> True
            | TClass c' \<Rightarrow> (case x of Dict m' \<Rightarrow> conforms c' m' | _ \<Rightarrow> False)))
      \<and> conforms_entries c rest)"
  by pat_completeness auto
termination
  by (relation "measure (\<lambda>x. case x of
        Inl (c, m) \<Rightarrow> 2 * size_list (size_prod (\<lambda>k. 0) size) m + 1
      | Inr (c, m) \<Rightarrow> 2 * size_list (size_prod (\<lambda>k. 0) size) m)") auto

text \<open>
  The state of a node of class \<open>c\<close> that was all-\<^verbatim>\<open>MISSING\<close> and onto which the mapping
  \<open>m\<close> has been applied: a field that is not declared as a dataclass holds the value \<open>m\<close>
  gives for it, or \<^verbatim>\<open>MISSING\<close> when \<open>m\<close> does not mention it; a field declared as a
  dataclass holds a node in that state for the mapping \<open>m\<close> gives for it (the empty one
  when \<open>m\<close> does not mention it). With the empty mapping this is the all-\<^verbatim>\<open>MISSING\<close>
  state. \<open>field_overridden\<close> is the condition on one field.
\<close>

fun overridden :: "cls \<Rightarrow> (string \<times> val) list \<Rightarrow> val \<Rightarrow> bool"
and fields_overridden :: "field list \<Rightarrow> (string \<times> val) list \<Rightarrow> (string \<times> val) list \<Rightarrow> bool" where
  "overridden (Cls n fs) m (Obj c attrs) = (c = Cls n fs \<and> fields_overridden fs m attrs)"
| "overridden (Cls n fs) m v = False"
| "fields_overridden [] m attrs = True"
| "fields_overridden (MkField name (TScalar a) d # fs) m attrs =
     (map_of attrs name = Some (case map_of m name of Some x \<Rightarrow> x | None \<Rightarrow> Scalar MISSING)
      \<and> fields_overridden fs m attrs)"
| "fields_overridden (MkField name (TClass c) d # fs) m attrs =
     ((case map_of attrs name of
         Some sub \<Rightarrow> overridden c (case map_of m name of Some (Dict m') \<Rightarrow> m' | _ \<Rightarrow> []) sub
       | None \<Rightarrow> False)
      \<and> fields_overridden fs m attrs)"

fun field_overridden :: "field \<Rightarrow> (string \<times> val) list \<Rightarrow> (string \<times> val) list \<Rightarrow> bool" where
  "field_overridden (MkField name (TScalar a) d) m attrs =
     (map_of attrs name = Some (case map_of m name of Some x \<Rightarrow> x | None \<Rightarrow> Scalar MISSING))"
| "field_overridden (MkField name (TClass c) d) m attrs =
     (case map_of attrs name of
        Some sub \<Rightarrow> overridden c (case map_of m name of Some (Dict m') \<Rightarrow> m' | _ \<Rightarrow> []) sub
      | None \<Rightarrow> False)"

subsection \<open>The store of objects\<close>

text \<open>
  Python hands instances around by reference. In this layer an instance lives in a store
  at an address; a field holds a scalar, a mapping or the address of another instance.
  The store is the list of all objects allocated so far, an address is an index into it,
  and allocating appends, so an address at or beyond the length of the store before a
  call is the address of an object the call has created.
\<close>

datatype hval = HScalar scalar | HDict "(string \<times> hval) list" | Ref nat

datatype hobj = HObj (hclass: cls) (hattrs: "(string \<times> hval) list")

type_synonym heap = "hobj list"

text \<open>An attribute assignment on the object at address \<open>a\<close>.\<close>

definition store :: "nat \<Rightarrow> string \<Rightarrow> hval \<Rightarrow> heap \<Rightarrow> heap" where
  "store a name v h = h[a := HObj (hclass (h ! a)) (AList.update name v (hattrs (h ! a)))]"

text \<open>
  \<^verbatim>\<open>f.type()\<close> in the store: the instance is allocated, then the generated \<^verbatim>\<open>__init__\<close>
  assigns every field its default in declaration order, calling the default factory where
  there is one, which allocates in turn.
\<close>

fun new_instance :: "cls \<Rightarrow> heap \<Rightarrow> nat \<times> heap"
and init_fields :: "field list \<Rightarrow> nat \<Rightarrow> heap \<Rightarrow> heap"
and eval_default :: "dflt \<Rightarrow> heap \<Rightarrow> hval \<times> heap" where
  "new_instance (Cls n fs) h = (length h, init_fields fs (length h) (h @ [HObj (Cls n fs) []]))"
| "init_fields [] a h = h"
| "init_fields (MkField name ty d # fs) a h =
     (case eval_default d h of (v, h') \<Rightarrow> init_fields fs a (store a name v h'))"
| "eval_default (Default s) h = (HScalar s, h)"
| "eval_default (DefaultFactory c) h = (case new_instance c h of (b, h') \<Rightarrow> (Ref b, h'))"

text \<open>
  \<^verbatim>\<open>fields(cfg)\<close> and \<^verbatim>\<open>setattr(cfg, name, v)\<close> on an address; \<open>setattr_h\<close> is strict as
  \<open>setattr\<close> is.
\<close>

definition fields_h :: "nat \<Rightarrow> heap \<Rightarrow> error + field list" where
  "fields_h cfg h = (if cfg < length h then Inr (cfields (hclass (h ! cfg))) else Inl NotADataclass)"

definition setattr_h :: "nat \<Rightarrow> string \<Rightarrow> hval \<Rightarrow> heap \<Rightarrow> error + heap" where
  "setattr_h cfg name v h =
     (if cfg < length h \<and> declared (hclass (h ! cfg)) name then Inr (store cfg name v h)
      else Inl UnknownFieldError)"

text \<open>
  \<open>init_empty\<close> on the store, line by line as above: the new instance for a nested field
  is allocated by \<open>new_instance\<close>, blanked by the recursive call, and its address is
  stored in the field. The call returns the address it was given and the store it leaves.
\<close>

function init_empty_h :: "nat \<Rightarrow> heap \<Rightarrow> error + nat \<times> heap"
and init_empty_loop_h :: "field list \<Rightarrow> nat \<Rightarrow> heap \<Rightarrow> error + heap" where
  "init_empty_h cfg h =
     (case fields_h cfg h of
        Inl e \<Rightarrow> Inl e
      | Inr fs \<Rightarrow> (case init_empty_loop_h fs cfg h of Inl e \<Rightarrow> Inl e | Inr h' \<Rightarrow> Inr (cfg, h')))"
| "init_empty_loop_h [] cfg h = Inr h"
| "init_empty_loop_h (MkField name ty d # fs) cfg h =
     (case ty of
        TClass c \<Rightarrow>
          (case new_instance c h of
             (b, h1) \<Rightarrow>
               (case init_empty_h b h1 of
                  Inl e \<Rightarrow> Inl e
                | Inr (sub, h2) \<Rightarrow>
                    (case setattr_h cfg name (Ref sub) h2 of
                       Inl e \<Rightarrow> Inl e
                     | Inr h3 \<Rightarrow> init_empty_loop_h fs cfg h3)))
      | TScalar a \<Rightarrow>
          (case setattr_h cfg name (HScalar MISSING) h of
             Inl e \<Rightarrow> Inl e
           | Inr h' \<Rightarrow> init_empty_loop_h fs cfg h'))"
  by pat_completeness auto
termination
proof -
  have kept:
    "fst (new_instance c h) = length h \<and> length h < length (snd (new_instance c h))
       \<and> hclass (snd (new_instance c h) ! length h) = c
       \<and> (\<forall>b<length h. hclass (snd (new_instance c h) ! b) = hclass (h ! b))"
    "length h2 \<le> length (init_fields fs a h2)
       \<and> (\<forall>b<length h2. hclass (init_fields fs a h2 ! b) = hclass (h2 ! b))"
    "length h3 \<le> length (snd (eval_default d h3))
       \<and> (\<forall>b<length h3. hclass (snd (eval_default d h3) ! b) = hclass (h3 ! b))"
    for c h fs a h2 d h3
  proof (induction c h and fs a h2 and d h3 rule: new_instance_init_fields_eval_default.induct)
    case (1 n fs h)
    then show ?case by (auto simp: nth_append)
  next
    case (2 a h)
    then show ?case by simp
  next
    case (3 name ty d fs a h)
    obtain v h' where e: "eval_default d h = (v, h')" by (cases "eval_default d h")
    have st: "length (store a name v h') = length h'"
      "\<forall>b<length h'. hclass (store a name v h' ! b) = hclass (h' ! b)"
      by (cases "a < length h'"; simp add: store_def nth_list_update)+
    from "3.IH"(1) e have 1: "length h \<le> length h'" "\<forall>b<length h. hclass (h' ! b) = hclass (h ! b)"
      by auto
    from "3.IH"(2)[OF e[symmetric]] st 1 e show ?case by auto
  next
    case (4 s h)
    then show ?case by simp
  next
    case (5 c h)
    then show ?case by (auto split: prod.splits)
  qed
  show ?thesis
  proof (relation "measure (\<lambda>x. case x of
        Inl (cfg, h) \<Rightarrow> (if cfg < length h then size (hclass (h ! cfg)) else 0)
      | Inr (fs, cfg, h) \<Rightarrow> size_list size fs)", goal_cases)
    case 1
    show ?case by simp
  next
    case (2 cfg h fs)
    then show ?case
      by (cases "hclass (h ! cfg)") (auto simp: fields_h_def split: if_splits)
  next
    case (3 name ty d fs cfg h a h')
    then show ?case by simp
  next
    case (4 name ty d fs cfg h c b h1)
    with kept(1)[of c h] show ?case by (cases "new_instance c h") auto
  next
    case (5 name ty d fs cfg h c b h1 r sub h2 h3)
    then show ?case by simp
  qed
qed

text \<open>The equation of \<open>init_empty_h\<close> is unfolded on request only.\<close>

declare init_empty_h.simps [simp del]

text \<open>
  The addresses a value and an object refer to (an entry of the attribute table that a
  later entry for the same name has replaced is not a field), and the objects reachable
  from an address by following fields.
\<close>

fun refs_of :: "hval \<Rightarrow> nat set" where
  "refs_of (HScalar s) = {}"
| "refs_of (Ref a) = {a}"
| "refs_of (HDict kvs) = \<Union> (set (map (\<lambda>(k, v). refs_of v) kvs))"

definition obj_refs :: "hobj \<Rightarrow> nat set" where
  "obj_refs ob = \<Union> (set (map (\<lambda>(k, v). refs_of v) (AList.clearjunk (hattrs ob))))"

inductive_set reach :: "heap \<Rightarrow> nat \<Rightarrow> nat set" for h :: heap and a :: nat where
  root: "a \<in> reach h a"
| step: "b \<in> reach h a \<Longrightarrow> b < length h \<Longrightarrow> c \<in> obj_refs (h ! b) \<Longrightarrow> c \<in> reach h a"

text \<open>
  Three notions for the statements about the store: between \<open>h\<close> and \<open>h'\<close> only the
  object at \<open>a\<close> may differ among the objects of \<open>h\<close> (\<open>frame\<close>); the objects at
  addresses from \<open>n\<close> on refer to addresses from \<open>n\<close> on only (\<open>closed_from\<close>); and what
  the loop of \<open>init_empty_h\<close> has established for the object at \<open>cfg\<close> once it has
  visited the fields \<open>fs\<close> (\<open>loop_post\<close>).
\<close>

definition frame :: "nat \<Rightarrow> heap \<Rightarrow> heap \<Rightarrow> bool" where
  "frame a h h' \<longleftrightarrow> length h \<le> length h' \<and> (\<forall>b<length h. b \<noteq> a \<longrightarrow> h' ! b = h ! b)"

definition closed_from :: "nat \<Rightarrow> heap \<Rightarrow> bool" where
  "closed_from n h \<longleftrightarrow> (\<forall>b. n \<le> b \<and> b < length h \<longrightarrow> obj_refs (h ! b) \<subseteq> {n..<length h})"

definition loop_post :: "nat \<Rightarrow> nat \<Rightarrow> field list \<Rightarrow> heap \<Rightarrow> heap \<Rightarrow> bool" where
  "loop_post n cfg fs h h' \<longleftrightarrow>
     frame cfg h h' \<and> closed_from n h' \<and> hclass (h' ! cfg) = hclass (h ! cfg)
     \<and> (\<forall>k v. map_of (hattrs (h' ! cfg)) k = Some v \<longrightarrow>
           refs_of v \<subseteq> {n..<length h'}
           \<or> (k \<notin> fname ` set fs \<and> map_of (hattrs (h ! cfg)) k = Some v))"

text \<open>
  The all-\<^verbatim>\<open>MISSING\<close> state in the store: the object at \<open>a\<close> is an instance of \<open>c\<close>, its
  fields that are not declared as dataclasses hold \<^verbatim>\<open>MISSING\<close>, and each field declared
  as a dataclass holds the address of an object allocated after \<open>a\<close> that is in the
  all-\<^verbatim>\<open>MISSING\<close> state of that dataclass.
\<close>

fun all_missing_h :: "cls \<Rightarrow> heap \<Rightarrow> nat \<Rightarrow> bool"
and fields_missing_h :: "field list \<Rightarrow> heap \<Rightarrow> nat \<Rightarrow> bool" where
  "all_missing_h (Cls n fs) h a =
     (a < length h \<and> hclass (h ! a) = Cls n fs \<and> fields_missing_h fs h a)"
| "fields_missing_h [] h a = True"
| "fields_missing_h (MkField name (TScalar t) d # fs) h a =
     (map_of (hattrs (h ! a)) name = Some (HScalar MISSING) \<and> fields_missing_h fs h a)"
| "fields_missing_h (MkField name (TClass c) d # fs) h a =
     ((case map_of (hattrs (h ! a)) name of
         Some (Ref b) \<Rightarrow> a < b \<and> all_missing_h c h b
       | _ \<Rightarrow> False)
      \<and> fields_missing_h fs h a)"

subsection \<open>The classes of config.py\<close>

definition OptimizerConfig :: cls where
  "OptimizerConfig = Cls ''OptimizerConfig''
     [MkField ''opt'' (TScalar ''str'') (Default (PyStr ''adam'')),
      MkField ''learning_rate'' (TScalar ''float'') (Default (PyFloat (1 / 10000))),
      MkField ''lr_decay'' (TScalar ''float'') (Default (PyInt 20000)),
      MkField ''weight_decay'' (TScalar ''float'') (Default (PyFloat (1 / 100000000))),
      MkField ''momentum'' (TScalar ''float'') (Default (PyFloat (9 / 10))),
      MkField ''clip_grad_type'' (TScalar ''str'') (Default (PyStr ''norm'')),
      MkField ''clip_grad_param'' (TScalar ''float'') (Default (PyFloat 10)),
      MkField ''adam_eps'' (TScalar ''float'') (Default (PyFloat (1 / 100000000)))]"

text \<open>
  \<^verbatim>\<open>Config\<close> nests seven classes that other modules declare (\<^verbatim>\<open>AlgoConfig\<close>,
  \<^verbatim>\<open>ModelConfig\<close>, \<^verbatim>\<open>ReplayConfig\<close>, \<^verbatim>\<open>TasksConfig\<close>, \<^verbatim>\<open>ConditionalsConfig\<close>,
  \<^verbatim>\<open>VinaConfig\<close>, \<^verbatim>\<open>Boltz2Config\<close>); they are parameters here, in that order.
\<close>

definition Config :: "cls \<Rightarrow> cls \<Rightarrow> cls \<Rightarrow> cls \<Rightarrow> cls \<Rightarrow> cls \<Rightarrow> cls \<Rightarrow> cls" where
  "Config AlgoConfig ModelConfig ReplayConfig TasksConfig ConditionalsConfig VinaConfig
          Boltz2Config = Cls ''Config''
     [MkField ''desc'' (TScalar ''str'') (Default (PyStr ''noDesc'')),
      MkField ''log_dir'' (TScalar ''str'') (Default MISSING),
      MkField ''resume'' (TScalar ''Optional[str]'') (Default PyNone),
      MkField ''device'' (TScalar ''str'') (Default (PyStr ''cuda'')),
      MkField ''seed'' (TScalar ''int'') (Default (PyInt 0)),
      MkField ''validate_every'' (TScalar ''int'') (Default (PyInt 1000)),
      MkField ''checkpoint_every'' (TScalar ''Optional[int]'') (Default PyNone),
      MkField ''store_all_checkpoints'' (TScalar ''bool'') (Default (PyBool False)),
      MkField ''print_every'' (TScalar ''int'') (Default (PyInt 100)),
      MkField ''start_at_step'' (TScalar ''int'') (Default (PyInt 0)),
      MkField ''num_final_gen_steps'' (TScalar ''Optional[int]'') (Default PyNone),
      MkField ''num_validation_gen_steps'' (TScalar ''Optional[int]'') (Default PyNone),
      MkField ''num_training_steps'' (TScalar ''int'') (Default (PyInt 10000)),
      MkField ''num_workers'' (TScalar ''int'') (Default (PyInt 0)),
      MkField ''hostname'' (TScalar ''Optional[str]'') (Default PyNone),
      MkField ''pickle_mp_messages'' (TScalar ''bool'') (Default (PyBool False)),
      MkField ''mp_buffer_size'' (TScalar ''int'') (Default (PyInt (32 * 4096 ^ 2))),
      MkField ''git_hash'' (TScalar ''Optional[str]'') (Default PyNone),
      MkField ''overwrite_existing_exp'' (TScalar ''bool'') (Default (PyBool False)),
      MkField ''algo'' (TClass AlgoConfig) (DefaultFactory AlgoConfig),
      MkField ''model'' (TClass ModelConfig) (DefaultFactory ModelConfig),
      MkField ''opt'' (TClass OptimizerConfig) (DefaultFactory OptimizerConfig),
      MkField ''replay'' (TClass ReplayConfig) (DefaultFactory ReplayConfig),
      MkField ''task'' (TClass TasksConfig) (DefaultFactory TasksConfig),
      MkField ''cond'' (TClass ConditionalsConfig) (DefaultFactory ConditionalsConfig),
      MkField ''reward'' (TScalar ''str'') (Default (PyStr ''seh_reaction'')),
      MkField ''vina'' (TClass VinaConfig) (DefaultFactory VinaConfig),
      MkField ''boltz2'' (TClass Boltz2Config) (DefaultFactory Boltz2Config)]"

text \<open>Two small classes for concrete instances: a node with a scalar field and a nested node.\<close>

definition Sub_schema :: cls where
  "Sub_schema = Cls ''Sub''
     [MkField ''y'' (TScalar ''int'') (Default (PyInt 1)),
      MkField ''z'' (TScalar ''int'') (Default (PyInt 2))]"

definition Node_schema :: cls where
  "Node_schema = Cls ''Node''
     [MkField ''x'' (TScalar ''int'') (Default (PyInt 5)),
      MkField ''sub'' (TClass Sub_schema) (DefaultFactory Sub_schema)]"

section \<open>Properties\<close>

subsection \<open>Shape of an override against the shape of the field\<close>

lemma default_instance_eq: "default_instance c = Obj c (default_attrs (cfields c))"
  by (cases c) simp

lemma update_same: "map_of attrs key = Some v \<Longrightarrow> AList.update key v attrs = attrs"
  by (induction attrs) auto

lemma getattr_ObjD:
  "getattr cfg key = Inr v \<Longrightarrow>
   \<exists>c attrs. cfg = Obj c attrs \<and> declared c key \<and> map_of attrs key = Some v"
  by (cases cfg) (auto split: if_splits option.splits)

lemma with_child_same: "getattr cfg key = Inr v \<Longrightarrow> with_child cfg key v = cfg"
  by (auto dest!: getattr_ObjD simp: update_same)

lemma override_config_not_mapping:
  "items value = Inl e \<Longrightarrow> override_config cur value = (cur, Some e)"
  by simp

text \<open>
  C1 (as stated): every disagreement between the shape of an override value and the shape
  of the field raises \<open>TypeMismatchError\<close>, in particular a mapping given for a scalar
  field. Counterexample: the class \<^verbatim>\<open>C\<close> with the one field \<^verbatim>\<open>x: int = 5\<close>; the call
  \<^verbatim>\<open>override_config(C(), {"x": {}})\<close> raises nothing and leaves the mapping in \<^verbatim>\<open>x\<close>.
\<close>

theorem override_scalar_with_mapping_counterexample:
  "override_config
     (Obj (Cls ''C'' [MkField ''x'' (TScalar ''int'') (Default (PyInt 5))])
          [(''x'', Scalar (PyInt 5))])
     (Dict [(''x'', Dict [])])
   = (Obj (Cls ''C'' [MkField ''x'' (TScalar ''int'') (Default (PyInt 5))])
          [(''x'', Dict [])], None)"
  by (simp add: declared_def)

lemma override_config_loop_append:
  "override_config_loop (pre @ rest) cfg =
     (case override_config_loop pre cfg of
        (cfg1, None) \<Rightarrow> override_config_loop rest cfg1
      | (cfg1, Some e) \<Rightarrow> (cfg1, Some e))"
proof (induction pre arbitrary: cfg)
  case Nil
  then show ?case by simp
next
  case (Cons kv pre)
  obtain key x where kv: "kv = (key, x)" by (cases kv)
  show ?case
    unfolding kv append_Cons override_config_loop.simps
    by (simp add: Cons.IH split: sum.splits prod.splits option.splits)
qed

lemma override_config_at:
  assumes "override_config_loop pre cfg = (cfg1, None)"
  shows "override_config cfg (Dict (pre @ (key, x) # rest))
         = override_config_loop ((key, x) # rest) cfg1"
  using assms by (simp add: override_config_loop_append)

lemma getattr_error: "getattr cfg key = Inl e \<Longrightarrow> e = UnknownFieldError"
  by (cases cfg) (auto split: if_splits option.splits)

lemma setattr_error: "setattr cfg key x = Inl e \<Longrightarrow> e = UnknownFieldError"
  by (cases cfg) (auto split: if_splits)

lemma setattr_after_getattr:
  "getattr cfg key = Inr cur \<Longrightarrow>
   \<exists>cfg2. setattr cfg key x = Inr cfg2 \<and> getattr cfg2 key = Inr x"
  by (auto dest!: getattr_ObjD simp: update_conv')

lemma type_mismatch_origin:
  "snd (override_config_loop kvs cfg) = Some TypeMismatchError \<Longrightarrow>
   \<exists>pre key x rest cfg1 cur.
      kvs = pre @ (key, x) # rest
      \<and> override_config_loop pre cfg = (cfg1, None)
      \<and> getattr cfg1 key = Inr cur \<and> is_dataclass cur
      \<and> snd (override_config cur x) = Some TypeMismatchError"
proof (induction kvs arbitrary: cfg)
  case Nil
  then show ?case by simp
next
  case (Cons kv kvs)
  obtain key x where kv: "kv = (key, x)" by (cases kv)
  show ?case
  proof (cases "getattr cfg key")
    case (Inl e)
    with Cons.prems kv getattr_error[OF Inl] show ?thesis by simp
  next
    case (Inr cur)
    show ?thesis
    proof (cases "is_dataclass cur")
      case True
      obtain cur' r where oc: "override_config cur x = (cur', r)"
        by (cases "override_config cur x")
      show ?thesis
      proof (cases r)
        case None
        let ?cfg' = "with_child cfg key cur'"
        from Cons.prems kv Inr True oc None
        have "snd (override_config_loop kvs ?cfg') = Some TypeMismatchError" by simp
        from Cons.IH[OF this] obtain pre k y rest cfg1 c where
          1: "kvs = pre @ (k, y) # rest" "override_config_loop pre ?cfg' = (cfg1, None)"
             "getattr cfg1 k = Inr c" "is_dataclass c"
             "snd (override_config c y) = Some TypeMismatchError"
          by blast
        have "override_config_loop ((key, x) # pre) cfg = (cfg1, None)"
          using Inr True oc None 1(2) by simp
        with 1 kv show ?thesis
          by (intro exI[of _ "(key, x) # pre"] exI[of _ k] exI[of _ y] exI[of _ rest]
                exI[of _ cfg1] exI[of _ c]) simp
      next
        case (Some e)
        with Cons.prems kv Inr True oc have "e = TypeMismatchError" by simp
        with Some oc Inr True kv show ?thesis
          by (intro exI[of _ "[]"] exI[of _ key] exI[of _ x] exI[of _ kvs]
                exI[of _ cfg] exI[of _ cur]) simp
      qed
    next
      case False
      from setattr_after_getattr[OF Inr, of x] obtain cfg2 where
        s: "setattr cfg key x = Inr cfg2" by blast
      from Cons.prems kv Inr False s
      have "snd (override_config_loop kvs cfg2) = Some TypeMismatchError" by simp
      from Cons.IH[OF this] obtain pre k y rest cfg1 c where
        1: "kvs = pre @ (k, y) # rest" "override_config_loop pre cfg2 = (cfg1, None)"
           "getattr cfg1 k = Inr c" "is_dataclass c"
           "snd (override_config c y) = Some TypeMismatchError"
        by blast
      have "override_config_loop ((key, x) # pre) cfg = (cfg1, None)"
        using Inr False s 1(2) by simp
      with 1 kv show ?thesis
        by (intro exI[of _ "(key, x) # pre"] exI[of _ k] exI[of _ y] exI[of _ rest]
              exI[of _ cfg1] exI[of _ c]) simp
    qed
  qed
qed

text \<open>
  C1 (amended): let the entries before an entry \<open>(key, x)\<close> of the overrides have been
  applied without error, leaving the node \<open>cfg1\<close>, and let \<open>key\<close> be a field of \<open>cfg1\<close>.
  \<^item> If the field holds a nested node and \<open>x\<close> is not a mapping, \<open>override_config\<close>
    raises \<open>TypeMismatchError\<close> at this entry: the node is left as \<open>cfg1\<close>, with the
    entries before applied and no entry after it looked at.
  \<^item> If the field holds a nested node, the call is the recursive call on that node and
    \<open>x\<close>: an exception of the recursive call surfaces with the child as the recursive
    call left it, otherwise the walk goes on with the entries after.
  \<^item> If the field holds anything that is not a node, \<open>x\<close> is stored in it whatever its
    shape, a mapping included: this entry raises nothing (as the last entry it ends the
    call without error) and the walk goes on with the entries after.
  \<^item> \<open>TypeMismatchError\<close> is raised in no other way: when the call raises it, some entry,
    reached after the entries before it were applied without error, names a field that
    holds a nested node, and either its value is not a mapping or the walk over its
    value inside that node raised it.
\<close>

theorem override_shape_mismatch:
  "(override_config_loop pre cfg = (cfg1, None) \<and> getattr cfg1 key = Inr cur
      \<and> is_dataclass cur \<and> items x = Inl TypeMismatchError
      \<longrightarrow> override_config cfg (Dict (pre @ (key, x) # rest)) = (cfg1, Some TypeMismatchError))
   \<and> (override_config_loop pre cfg = (cfg1, None) \<and> getattr cfg1 key = Inr cur
      \<and> is_dataclass cur
      \<longrightarrow> override_config cfg (Dict (pre @ (key, x) # rest))
          = (case override_config cur x of
               (cur', None) \<Rightarrow> override_config_loop rest (with_child cfg1 key cur')
             | (cur', Some e) \<Rightarrow> (with_child cfg1 key cur', Some e)))
   \<and> (override_config_loop pre cfg = (cfg1, None) \<and> getattr cfg1 key = Inr cur
      \<and> \<not> is_dataclass cur
      \<longrightarrow> (\<exists>cfg2. setattr cfg1 key x = Inr cfg2 \<and> getattr cfg2 key = Inr x
            \<and> override_config cfg (Dict (pre @ [(key, x)])) = (cfg2, None)
            \<and> override_config cfg (Dict (pre @ (key, x) # rest))
                = override_config_loop rest cfg2))
   \<and> (snd (override_config cfg (Dict kvs)) = Some TypeMismatchError
      \<longrightarrow> (\<exists>pre key x rest cfg1 cur.
            kvs = pre @ (key, x) # rest
            \<and> override_config_loop pre cfg = (cfg1, None)
            \<and> getattr cfg1 key = Inr cur \<and> is_dataclass cur
            \<and> (items x = Inl TypeMismatchError
                \<or> (\<exists>m. x = Dict m
                      \<and> snd (override_config_loop m cur) = Some TypeMismatchError))))"
proof (intro conjI impI)
  assume a: "override_config_loop pre cfg = (cfg1, None) \<and> getattr cfg1 key = Inr cur
      \<and> is_dataclass cur \<and> items x = Inl TypeMismatchError"
  then have "override_config cur x = (cur, Some TypeMismatchError)"
    by (simp add: override_config_not_mapping)
  with a show "override_config cfg (Dict (pre @ (key, x) # rest)) = (cfg1, Some TypeMismatchError)"
    using override_config_at[of pre cfg cfg1 key x rest] by (simp add: with_child_same)
next
  assume a: "override_config_loop pre cfg = (cfg1, None) \<and> getattr cfg1 key = Inr cur
      \<and> is_dataclass cur"
  then show "override_config cfg (Dict (pre @ (key, x) # rest))
          = (case override_config cur x of
               (cur', None) \<Rightarrow> override_config_loop rest (with_child cfg1 key cur')
             | (cur', Some e) \<Rightarrow> (with_child cfg1 key cur', Some e))"
    using override_config_at[of pre cfg cfg1 key x rest]
    by (simp split: prod.splits option.splits)
next
  assume a: "override_config_loop pre cfg = (cfg1, None) \<and> getattr cfg1 key = Inr cur
      \<and> \<not> is_dataclass cur"
  from setattr_after_getattr[of cfg1 key cur x] a obtain cfg2 where
    s: "setattr cfg1 key x = Inr cfg2" and g: "getattr cfg2 key = Inr x" by blast
  have "override_config cfg (Dict (pre @ [(key, x)])) = (cfg2, None)"
    using override_config_at[of pre cfg cfg1 key x "[]"] a s by simp
  moreover have "override_config cfg (Dict (pre @ (key, x) # rest)) = override_config_loop rest cfg2"
    using override_config_at[of pre cfg cfg1 key x rest] a s by simp
  ultimately show "\<exists>cfg2. setattr cfg1 key x = Inr cfg2 \<and> getattr cfg2 key = Inr x
            \<and> override_config cfg (Dict (pre @ [(key, x)])) = (cfg2, None)
            \<and> override_config cfg (Dict (pre @ (key, x) # rest))
                = override_config_loop rest cfg2"
    using s g by blast
next
  assume "snd (override_config cfg (Dict kvs)) = Some TypeMismatchError"
  then have "snd (override_config_loop kvs cfg) = Some TypeMismatchError" by simp
  from type_mismatch_origin[OF this] obtain pre key x rest cfg1 cur where
    1: "kvs = pre @ (key, x) # rest" "override_config_loop pre cfg = (cfg1, None)"
       "getattr cfg1 key = Inr cur" "is_dataclass cur"
       "snd (override_config cur x) = Some TypeMismatchError"
    by blast
  have "items x = Inl TypeMismatchError
        \<or> (\<exists>m. x = Dict m \<and> snd (override_config_loop m cur) = Some TypeMismatchError)"
    using 1(5) by (cases x) simp_all
  with 1 show "\<exists>pre key x rest cfg1 cur.
            kvs = pre @ (key, x) # rest
            \<and> override_config_loop pre cfg = (cfg1, None)
            \<and> getattr cfg1 key = Inr cur \<and> is_dataclass cur
            \<and> (items x = Inl TypeMismatchError
                \<or> (\<exists>m. x = Dict m
                      \<and> snd (override_config_loop m cur) = Some TypeMismatchError))"
    by blast
qed

theorem override_shape_mismatch_witness:
  "override_config_loop [(''x'', Scalar (PyInt 7))] (default_instance Node_schema)
     = (Obj Node_schema [(''x'', Scalar (PyInt 7)),
          (''sub'', Obj Sub_schema [(''y'', Scalar (PyInt 1)), (''z'', Scalar (PyInt 2))])], None)
   \<and> override_config (default_instance Node_schema)
        (Dict [(''x'', Scalar (PyInt 7)), (''sub'', Scalar (PyInt 1)),
               (''not_a_field'', Scalar (PyInt 9))])
     = (Obj Node_schema [(''x'', Scalar (PyInt 7)),
          (''sub'', Obj Sub_schema [(''y'', Scalar (PyInt 1)), (''z'', Scalar (PyInt 2))])],
        Some TypeMismatchError)
   \<and> override_config (default_instance Node_schema)
        (Dict [(''sub'', Dict [(''z'', Scalar (PyInt 4))]), (''x'', Dict [(''y'', Scalar (PyInt 1))])])
     = (Obj Node_schema [(''x'', Dict [(''y'', Scalar (PyInt 1))]),
          (''sub'', Obj Sub_schema [(''y'', Scalar (PyInt 1)), (''z'', Scalar (PyInt 4))])], None)"
  using override_shape_mismatch
    [of "[(''x'', Scalar (PyInt 7))]" "default_instance Node_schema"
        "Obj Node_schema [(''x'', Scalar (PyInt 7)),
          (''sub'', Obj Sub_schema [(''y'', Scalar (PyInt 1)), (''z'', Scalar (PyInt 2))])]"
        "''sub''" "Obj Sub_schema [(''y'', Scalar (PyInt 1)), (''z'', Scalar (PyInt 2))]"
        "Scalar (PyInt 1)" "[(''not_a_field'', Scalar (PyInt 9))]"]
  by (simp add: Node_schema_def Sub_schema_def declared_def)

subsection \<open>Fields that the overrides do not mention\<close>

lemma getattr_with_child:
  "getattr cfg key = Inr cur \<Longrightarrow>
   getattr (with_child cfg key sub) k = (if k = key then Inr sub else getattr cfg k)"
  by (auto dest!: getattr_ObjD simp: update_conv')

lemma getattr_setattr:
  "setattr cfg key x = Inr cfg' \<Longrightarrow>
   getattr cfg' k = (if k = key then Inr x else getattr cfg k)"
  by (cases cfg) (auto simp: update_conv' split: if_splits)

lemma get_path_not_dataclass:
  "\<not> is_dataclass cur \<Longrightarrow> ks \<noteq> [] \<Longrightarrow> get_path cur ks = None"
  by (cases cur; cases ks) auto

lemma mentioned_Cons_other:
  "k \<noteq> key \<Longrightarrow> mentioned ((key, x) # rest) (k # ks) = mentioned rest (k # ks)"
  by (cases ks; cases x) auto

lemma mentioned_Cons_same:
  "\<not> mentioned ((key, x) # rest) (key # ks) \<Longrightarrow>
   ks \<noteq> [] \<and> (\<forall>m. x = Dict m \<longrightarrow> \<not> mentioned m ks) \<and> \<not> mentioned rest (key # ks)"
  by (cases ks; cases x) auto

lemma override_config_paths:
  "p \<noteq> [] \<Longrightarrow> get_path cfg p = Some v \<Longrightarrow> (\<forall>m. overrides = Dict m \<longrightarrow> \<not> mentioned m p)
     \<Longrightarrow> get_path (fst (override_config cfg overrides)) p = Some v"
  "p \<noteq> [] \<Longrightarrow> get_path cfg p = Some v \<Longrightarrow> \<not> mentioned kvs p
     \<Longrightarrow> get_path (fst (override_config_loop kvs cfg)) p = Some v"
proof (induction cfg overrides and kvs cfg arbitrary: p v and p v
       rule: override_config_override_config_loop.induct)
  case (1 cfg overrides)
  then show ?case by (cases overrides) auto
next
  case (2 cfg)
  then show ?case by simp
next
  case (3 key x rest cfg)
  obtain k ks where p: "p = k # ks" using \<open>p \<noteq> []\<close> by (cases p) auto
  show ?case
  proof (cases "getattr cfg key")
    case (Inl e)
    with "3.prems" show ?thesis by simp
  next
    case (Inr cur)
    show ?thesis
    proof (cases "is_dataclass cur")
      case True
      obtain cur' r where oc: "override_config cur x = (cur', r)" by (cases "override_config cur x")
      let ?cfg1 = "with_child cfg key cur'"
      have rest: "\<not> mentioned rest p"
        using "3.prems"(3) p mentioned_Cons_other[of k key x rest ks] mentioned_Cons_same[of key x rest ks]
        by (cases "k = key") auto
      have kept: "get_path ?cfg1 p = Some v"
      proof (cases "k = key")
        case False
        with "3.prems"(2) p Inr show ?thesis by (simp add: getattr_with_child)
      next
        case same: True
        from "3.prems"(3) p same have ks: "ks \<noteq> []" and nm: "\<forall>m. x = Dict m \<longrightarrow> \<not> mentioned m ks"
          using mentioned_Cons_same[of key x rest ks] by auto
        from "3.prems"(2) p same Inr have "get_path cur ks = Some v" by simp
        with "3.IH"(1)[OF Inr True ks _ nm] oc have "get_path cur' ks = Some v" by simp
        with p same Inr show ?thesis by (simp add: getattr_with_child)
      qed
      show ?thesis
      proof (cases r)
        case None
        with oc have oc': "(cur', None) = override_config cur x" by simp
        from "3.IH"(2)[OF Inr True oc' refl "3.prems"(1) kept rest] oc Inr True None
        show ?thesis by simp
      next
        case (Some e)
        with kept oc Inr True show ?thesis by simp
      qed
    next
      case False
      show ?thesis
      proof (cases "setattr cfg key x")
        case (Inl e)
        with Inr False "3.prems" show ?thesis by simp
      next
        case set: (Inr cfg')
        have kk: "k \<noteq> key"
        proof
          assume same: "k = key"
          from "3.prems"(3) p same have ks: "ks \<noteq> []"
            using mentioned_Cons_same[of key x rest ks] by auto
          from "3.prems"(2) p same Inr have "get_path cur ks = Some v" by simp
          with get_path_not_dataclass[OF False ks] show False by simp
        qed
        then have rest: "\<not> mentioned rest p"
          using "3.prems"(3) p mentioned_Cons_other[of k key x rest ks] by simp
        have kept: "get_path cfg' p = Some v"
          using "3.prems"(2) p kk by (simp add: getattr_setattr[OF set])
        from "3.IH"(3)[OF Inr False set "3.prems"(1) kept rest] Inr False set
        show ?thesis by simp
      qed
    qed
  qed
qed

text \<open>
  C4: after \<open>override_config cfg overrides\<close>, whether it returns or raises, every field of
  \<open>cfg\<close> at every depth that the overrides do not mention at the corresponding depth holds
  the value it held before the call.
\<close>

theorem override_config_sparsity:
  "get_path cfg (k # ks) = Some v \<Longrightarrow> \<not> mentioned overrides (k # ks) \<Longrightarrow>
   get_path (fst (override_config cfg (Dict overrides))) (k # ks) = Some v"
  using override_config_paths(1)[of "k # ks" cfg v "Dict overrides"] by simp

theorem override_config_sparsity_witness:
  "get_path (default_instance Node_schema) [''sub'', ''z''] = Some (Scalar (PyInt 2))
   \<and> \<not> mentioned [(''sub'', Dict [(''y'', Scalar (PyInt 3))])] [''sub'', ''z'']
   \<and> get_path (fst (override_config (default_instance Node_schema)
                      (Dict [(''sub'', Dict [(''y'', Scalar (PyInt 3))])])))
        [''sub'', ''z''] = Some (Scalar (PyInt 2))"
  using override_config_sparsity
    [of "default_instance Node_schema" "''sub''" "[''z'']" "Scalar (PyInt 2)"
        "[(''sub'', Dict [(''y'', Scalar (PyInt 3))])]"]
  by (simp add: Node_schema_def Sub_schema_def declared_def)

subsection \<open>Names that the schema does not declare\<close>

text \<open>
  C8: reading or writing a name that the schema of a node does not declare fails with
  \<open>UnknownFieldError\<close>, for every node and so at every depth; \<open>override_config\<close> with such a
  name as its first key raises \<open>UnknownFieldError\<close> and leaves the node as it was, also
  when the name is met in the mapping given for a nested node.
\<close>

theorem unknown_field_rejected:
  "\<not> declared c name \<Longrightarrow>
     getattr (Obj c attrs) name = Inl UnknownFieldError
   \<and> setattr (Obj c attrs) name v = Inl UnknownFieldError
   \<and> override_config (Obj c attrs) (Dict ((name, v) # rest))
       = (Obj c attrs, Some UnknownFieldError)
   \<and> (getattr cfg key = Inr (Obj c attrs) \<longrightarrow>
        override_config cfg (Dict ((key, Dict ((name, v) # rest)) # rest'))
          = (cfg, Some UnknownFieldError))"
  by (simp add: with_child_same)

theorem unknown_field_rejected_witness:
  "\<not> declared Node_schema ''not_a_field''
   \<and> override_config (default_instance Node_schema) (Dict [(''not_a_field'', Scalar (PyInt 1))])
       = (default_instance Node_schema, Some UnknownFieldError)
   \<and> override_config (default_instance Node_schema)
         (Dict [(''sub'', Dict [(''not_a_field'', Scalar (PyInt 1))])])
       = (default_instance Node_schema, Some UnknownFieldError)"
  using unknown_field_rejected
    [of Sub_schema "''not_a_field''" "default_attrs (cfields Sub_schema)" "Scalar (PyInt 1)" "[]"
        "default_instance Node_schema" "''sub''" "[]"]
  by (simp add: Node_schema_def Sub_schema_def declared_def)

subsection \<open>A nested override\<close>

lemma override_leaf:
  assumes "getattr node y = Inr cur" "\<not> is_dataclass cur"
  shows "\<exists>node'. setattr node y v = Inr node' \<and> override_config node (Dict [(y, v)]) = (node', None)"
proof -
  from assms(1) obtain c attrs where "node = Obj c attrs" "declared c y"
    by (auto dest!: getattr_ObjD)
  with assms show ?thesis by simp
qed

lemma override_nested_leaf:
  assumes sub: "getattr cfg sub = Inr node" and dc: "is_dataclass node"
      and y: "getattr node y = Inr cur" and leaf: "\<not> is_dataclass cur"
  shows "\<exists>cfg'. override_config cfg (Dict [(sub, Dict [(y, v)])]) = (cfg', None)
           \<and> get_path cfg' [sub, y] = Some v
           \<and> (\<forall>z. z \<noteq> y \<longrightarrow> get_path cfg' [sub, z] = get_path cfg [sub, z])
           \<and> (\<forall>k. k \<noteq> sub \<longrightarrow> getattr cfg' k = getattr cfg k)"
proof -
  from override_leaf[OF y leaf, of v] obtain node' where
    set: "setattr node y v = Inr node'" and oc: "override_config node (Dict [(y, v)]) = (node', None)"
    by blast
  let ?cfg' = "with_child cfg sub node'"
  have "override_config cfg (Dict [(sub, Dict [(y, v)])]) = (?cfg', None)"
    using sub dc oc by simp
  moreover have "get_path ?cfg' [sub, y] = Some v"
    by (simp add: getattr_with_child[OF sub] getattr_setattr[OF set])
  moreover have "\<forall>z. z \<noteq> y \<longrightarrow> get_path ?cfg' [sub, z] = get_path cfg [sub, z]"
    by (simp add: getattr_with_child[OF sub] getattr_setattr[OF set] sub)
  moreover have "\<forall>k. k \<noteq> sub \<longrightarrow> getattr ?cfg' k = getattr cfg k"
    by (simp add: getattr_with_child[OF sub])
  ultimately show ?thesis by blast
qed

lemma scenario_opt:
  "getattr (default_instance (Config A M R T C V B)) ''opt'' = Inr (default_instance OptimizerConfig)"
  by (simp add: Config_def declared_def)


lemma scenario_lr:
  "getattr (default_instance OptimizerConfig) ''learning_rate'' = Inr (Scalar (PyFloat (1 / 10000)))"
  by (simp add: OptimizerConfig_def declared_def)

lemma scenario_wd:
  "getattr (default_instance OptimizerConfig) ''weight_decay''
   = Inr (Scalar (PyFloat (1 / 100000000)))"
  by (simp add: OptimizerConfig_def declared_def)

lemma scenario_opt_learning_rate:
  "\<exists>cfg'. override_config (default_instance (Config A M R T C V B))
             (Dict [(''opt'', Dict [(''learning_rate'', Scalar (PyFloat (5 / 100000)))])])
           = (cfg', None)
     \<and> get_path cfg' [''opt'', ''learning_rate''] = Some (Scalar (PyFloat (5 / 100000)))
     \<and> get_path cfg' [''opt'', ''weight_decay''] = Some (Scalar (PyFloat (1 / 100000000)))"
proof -
  have dc: "is_dataclass (default_instance OptimizerConfig)"
    by (simp add: default_instance_eq)
  have leaf: "\<not> is_dataclass (Scalar (PyFloat (1 / 10000)))"
    by simp
  from override_nested_leaf[OF scenario_opt[of A M R T C V B] dc scenario_lr leaf,
         where v = "Scalar (PyFloat (5 / 100000))"]
  obtain cfg' where
    oc: "override_config (default_instance (Config A M R T C V B))
           (Dict [(''opt'', Dict [(''learning_rate'', Scalar (PyFloat (5 / 100000)))])]) = (cfg', None)"
    and lr: "get_path cfg' [''opt'', ''learning_rate''] = Some (Scalar (PyFloat (5 / 100000)))"
    and others: "\<forall>z. z \<noteq> ''learning_rate'' \<longrightarrow>
        get_path cfg' [''opt'', z] = get_path (default_instance (Config A M R T C V B)) [''opt'', z]"
    by blast
  have "get_path cfg' [''opt'', ''weight_decay'']
        = get_path (default_instance (Config A M R T C V B)) [''opt'', ''weight_decay'']"
    using others by simp
  also have "\<dots> = Some (Scalar (PyFloat (1 / 100000000)))"
    by (simp add: scenario_opt scenario_wd del: getattr.simps)
  finally show ?thesis using oc lr by blast
qed

text \<open>
  C5: when \<open>cfg.sub\<close> is a nested node whose field \<open>y\<close> holds a value that is not a node,
  \<open>override_config cfg {sub: {y: v}}\<close> returns, afterwards \<open>cfg.sub.y\<close> is \<open>v\<close>, every other
  field of \<open>cfg.sub\<close> and every other field of \<open>cfg\<close> is as before. For the default
  \<^verbatim>\<open>Config\<close>, whatever the seven nested classes of the other modules are,
  \<^verbatim>\<open>override_config(cfg, {"opt": {"learning_rate": 5e-5}})\<close> leaves
  \<^verbatim>\<open>cfg.opt.learning_rate == 5e-5\<close> and \<^verbatim>\<open>cfg.opt.weight_decay == 1e-8\<close>.
\<close>

theorem override_nested_application:
  "(getattr cfg sub = Inr node \<and> is_dataclass node \<and> getattr node y = Inr cur
      \<and> \<not> is_dataclass cur \<longrightarrow>
    (\<exists>cfg'. override_config cfg (Dict [(sub, Dict [(y, v)])]) = (cfg', None)
       \<and> get_path cfg' [sub, y] = Some v
       \<and> (\<forall>z. z \<noteq> y \<longrightarrow> get_path cfg' [sub, z] = get_path cfg [sub, z])
       \<and> (\<forall>k. k \<noteq> sub \<longrightarrow> getattr cfg' k = getattr cfg k)))
   \<and> (\<exists>cfg'. override_config (default_instance (Config A M R T C V B))
             (Dict [(''opt'', Dict [(''learning_rate'', Scalar (PyFloat (5 / 100000)))])])
           = (cfg', None)
       \<and> get_path cfg' [''opt'', ''learning_rate''] = Some (Scalar (PyFloat (5 / 100000)))
       \<and> get_path cfg' [''opt'', ''weight_decay''] = Some (Scalar (PyFloat (1 / 100000000))))"
  using override_nested_leaf[of cfg sub node y cur v] scenario_opt_learning_rate[of A M R T C V B]
  by blast

theorem override_nested_application_witness:
  "getattr (default_instance Node_schema) ''sub'' = Inr (default_instance Sub_schema)
   \<and> is_dataclass (default_instance Sub_schema)
   \<and> getattr (default_instance Sub_schema) ''y'' = Inr (Scalar (PyInt 1))
   \<and> \<not> is_dataclass (Scalar (PyInt 1))
   \<and> override_config (default_instance Node_schema)
         (Dict [(''sub'', Dict [(''y'', Scalar (PyInt 3))])])
       = (Obj Node_schema [(''x'', Scalar (PyInt 5)),
            (''sub'', Obj Sub_schema [(''y'', Scalar (PyInt 3)), (''z'', Scalar (PyInt 2))])], None)"
  using override_nested_application
    [of "default_instance Node_schema" "''sub''" "default_instance Sub_schema" "''y''"
        "Scalar (PyInt 1)" "Scalar (PyInt 3)"]
  by (simp add: Node_schema_def Sub_schema_def declared_def)

subsection \<open>What init\_empty leaves behind\<close>

lemma blank_attrs_Nil: "blank_attrs [] attrs = attrs"
  by (simp add: blank_attrs_def)

lemma blank_attrs_Cons:
  "blank_attrs (f # fs) attrs
   = blank_attrs fs (AList.update (fname f) (projr (blank_value (ftype f))) attrs)"
  by (simp add: blank_attrs_def)

lemma init_empty_blank:
  "cfg = Obj c attrs \<Longrightarrow> init_empty cfg = Inr (Obj c (blank_attrs (cfields c) attrs))"
  "cfg = Obj c attrs \<Longrightarrow> \<forall>f\<in>set fs. declared c (fname f) \<Longrightarrow>
     init_empty_loop fs cfg = Inr (Obj c (blank_attrs fs attrs))"
proof (induction cfg and fs cfg arbitrary: c attrs and c attrs
       rule: init_empty_init_empty_loop.induct)
  case (1 cfg)
  have "\<forall>f\<in>set (cfields c). declared c (fname f)" by (simp add: declared_def)
  with 1 show ?case by (simp add: init_empty.simps)
next
  case (2 cfg)
  then show ?case by (simp add: blank_attrs_Nil)
next
  case (3 name ty d fs cfg)
  show ?case
  proof (cases ty)
    case (TScalar a)
    with 3 show ?thesis by (simp add: blank_attrs_Cons)
  next
    case (TClass c')
    have sub: "init_empty (default_instance c')
               = Inr (Obj c' (blank_attrs (cfields c') (default_attrs (cfields c'))))"
      using "3.IH"(2)[OF TClass default_instance_eq] .
    with 3 TClass show ?thesis by (simp add: blank_attrs_Cons)
  qed
qed

lemma init_empty_default_instance:
  "init_empty (default_instance c)
   = Inr (Obj c (blank_attrs (cfields c) (default_attrs (cfields c))))"
  by (rule init_empty_blank(1)[OF default_instance_eq])

lemma blank_value_Inr: "\<exists>v. blank_value ty = Inr v"
  by (cases ty) (simp_all add: init_empty_default_instance)

lemma map_of_blank_attrs_other:
  "n \<notin> fname ` set fs \<Longrightarrow> map_of (blank_attrs fs attrs) n = map_of attrs n"
  by (induction fs arbitrary: attrs) (auto simp: blank_attrs_Nil blank_attrs_Cons update_conv')

lemma map_of_blank_attrs:
  "distinct (map fname fs) \<Longrightarrow> f \<in> set fs \<Longrightarrow>
   map_of (blank_attrs fs attrs) (fname f) = Some (projr (blank_value (ftype f)))"
proof (induction fs arbitrary: attrs)
  case Nil
  then show ?case by simp
next
  case (Cons g fs)
  show ?case
  proof (cases "f = g")
    case True
    with Cons.prems have "fname g \<notin> fname ` set fs" by auto
    with True show ?thesis
      by (simp add: blank_attrs_Cons map_of_blank_attrs_other update_conv')
  next
    case False
    with Cons show ?thesis by (simp add: blank_attrs_Cons)
  qed
qed

lemma blank_attrs_fixed:
  "\<forall>f\<in>set fs. map_of attrs (fname f) = Some (projr (blank_value (ftype f))) \<Longrightarrow>
   blank_attrs fs attrs = attrs"
  by (induction fs) (auto simp: blank_attrs_Nil blank_attrs_Cons update_same)

lemma blank_attrs_idem:
  "distinct (map fname fs) \<Longrightarrow> blank_attrs fs (blank_attrs fs attrs) = blank_attrs fs attrs"
  by (rule blank_attrs_fixed) (simp add: map_of_blank_attrs)

lemma wf_cls_distinct: "wf_cls c \<Longrightarrow> distinct (map fname (cfields c))"
  by (cases c) simp

lemma blank_all_missing:
  "wf_cls c \<Longrightarrow> all_missing c (Obj c (blank_attrs (cfields c) attrs))"
  "wf_fields fs \<Longrightarrow>
   \<forall>f\<in>set fs. map_of attrs' (fname f) = Some (projr (blank_value (ftype f))) \<Longrightarrow>
   fields_missing fs attrs'"
proof (induction c and fs arbitrary: attrs and attrs' rule: wf_cls_wf_fields.induct)
  case (1 n fs)
  then show ?case by (simp add: map_of_blank_attrs)
next
  case 2
  then show ?case by simp
next
  case (3 name a d fs)
  then show ?case by simp
next
  case (4 name c d fs)
  then show ?case
    by (simp add: init_empty_default_instance)
qed


lemma init_empty_Obj:
  "init_empty (Obj c attrs) = Inr (Obj c (blank_attrs (cfields c) attrs))"
  by (rule init_empty_blank(1)[OF refl])

lemma wf_fields_member:
  "wf_fields fs \<Longrightarrow> MkField name (TClass c') d \<in> set fs \<Longrightarrow> wf_cls c'"
proof (induction fs)
  case Nil
  then show ?case by simp
next
  case (Cons f fs)
  then show ?case by (cases f; cases "ftype f") auto
qed

lemma wf_cls_member:
  "wf_cls c \<Longrightarrow> MkField name (TClass c') d \<in> set (cfields c) \<Longrightarrow> wf_cls c'"
  by (cases c) (auto dest: wf_fields_member)

lemma declared_member: "f \<in> set (cfields c) \<Longrightarrow> declared c (fname f)"
  by (simp add: declared_def)

lemma getattr_blank:
  assumes "wf_cls c" "f \<in> set (cfields c)"
  shows "getattr (Obj c (blank_attrs (cfields c) attrs)) (fname f) = blank_value (ftype f)"
proof -
  obtain v where v: "blank_value (ftype f) = Inr v" using blank_value_Inr by blast
  with assms show ?thesis
    by (simp add: declared_member map_of_blank_attrs wf_cls_distinct)
qed

lemma override_config_single_nested:
  "getattr r name = Inr sub \<Longrightarrow> is_dataclass sub \<Longrightarrow>
   override_config r (Dict [(name, m)])
   = (with_child r name (fst (override_config sub m)), snd (override_config sub m))"
  by (cases "override_config sub m") (auto split: option.splits)

text \<open>
  C7: \<open>init_empty\<close> applied to the node that \<open>init_empty\<close> returned gives that node again,
  in the same all-\<^verbatim>\<open>MISSING\<close> state.
\<close>

theorem init_empty_idempotent:
  "wf_cls c \<Longrightarrow>
   \<exists>r. init_empty (Obj c attrs) = Inr r \<and> init_empty r = Inr r \<and> all_missing c r"
  by (simp add: init_empty_Obj blank_all_missing(1) blank_attrs_idem wf_cls_distinct)


theorem init_empty_idempotent_witness:
  "wf_cls Node_schema
   \<and> init_empty (default_instance Node_schema)
       = Inr (Obj Node_schema [(''x'', Scalar MISSING),
           (''sub'', Obj Sub_schema [(''y'', Scalar MISSING), (''z'', Scalar MISSING)])])
   \<and> init_empty (Obj Node_schema [(''x'', Scalar MISSING),
           (''sub'', Obj Sub_schema [(''y'', Scalar MISSING), (''z'', Scalar MISSING)])])
       = Inr (Obj Node_schema [(''x'', Scalar MISSING),
           (''sub'', Obj Sub_schema [(''y'', Scalar MISSING), (''z'', Scalar MISSING)])])"
  using init_empty_idempotent[of Node_schema "default_attrs (cfields Node_schema)"]
  by (simp add: Node_schema_def Sub_schema_def init_empty.simps declared_def)

text \<open>
  C10: \<open>init_empty\<close> goes by the declared type of a field: a field declared as the
  dataclass \<open>c'\<close> holds, after the call, the blanked new instance of \<open>c'\<close>, whatever the
  field held before (\<open>attrs\<close> is arbitrary). \<open>override_config\<close> goes by the stored value:
  when such a field holds something that is not a dataclass instance, \<^verbatim>\<open>MISSING\<close> for one,
  a mapping given for it is stored in the field and not merged.
\<close>

theorem init_empty_declared_type:
  "wf_cls c \<Longrightarrow> MkField name (TClass c') d \<in> set (cfields c) \<Longrightarrow>
   (\<exists>r sub. init_empty (Obj c attrs) = Inr r
      \<and> init_empty (default_instance c') = Inr sub
      \<and> is_dataclass sub \<and> class_of sub = Some c'
      \<and> getattr r name = Inr sub)
   \<and> (getattr (Obj c attrs) name = Inr cur \<and> \<not> is_dataclass cur \<longrightarrow>
        override_config (Obj c attrs) (Dict [(name, Dict m)])
        = (Obj c (AList.update name (Dict m) attrs), None))"
proof (intro conjI impI)
  assume wf: "wf_cls c" and f: "MkField name (TClass c') d \<in> set (cfields c)"
  from getattr_blank[OF wf f, of attrs]
  show "\<exists>r sub. init_empty (Obj c attrs) = Inr r
      \<and> init_empty (default_instance c') = Inr sub
      \<and> is_dataclass sub \<and> class_of sub = Some c'
      \<and> getattr r name = Inr sub"
    by (simp add: init_empty_Obj init_empty_default_instance del: getattr.simps)
next
  assume f: "MkField name (TClass c') d \<in> set (cfields c)"
    and cur: "getattr (Obj c attrs) name = Inr cur \<and> \<not> is_dataclass cur"
  from declared_member[OF f] cur
  show "override_config (Obj c attrs) (Dict [(name, Dict m)])
        = (Obj c (AList.update name (Dict m) attrs), None)"
    by (auto split: option.splits)
qed


theorem init_empty_declared_type_witness:
  "wf_cls Node_schema
   \<and> MkField ''sub'' (TClass Sub_schema) (DefaultFactory Sub_schema) \<in> set (cfields Node_schema)
   \<and> init_empty (Obj Node_schema [(''x'', Scalar (PyInt 5)), (''sub'', Scalar MISSING)])
       = Inr (Obj Node_schema [(''x'', Scalar MISSING),
           (''sub'', Obj Sub_schema [(''y'', Scalar MISSING), (''z'', Scalar MISSING)])])
   \<and> getattr (Obj Node_schema [(''x'', Scalar (PyInt 5)), (''sub'', Scalar MISSING)]) ''sub''
       = Inr (Scalar MISSING)
   \<and> override_config (Obj Node_schema [(''x'', Scalar (PyInt 5)), (''sub'', Scalar MISSING)])
         (Dict [(''sub'', Dict [(''y'', Scalar (PyInt 3))])])
       = (Obj Node_schema [(''x'', Scalar (PyInt 5)),
            (''sub'', Dict [(''y'', Scalar (PyInt 3))])], None)"
  using init_empty_declared_type
    [of Node_schema "''sub''" Sub_schema "DefaultFactory Sub_schema"
        "[(''x'', Scalar (PyInt 5)), (''sub'', Scalar MISSING)]" "Scalar MISSING"
        "[(''y'', Scalar (PyInt 3))]"]
  by (simp add: Node_schema_def Sub_schema_def init_empty.simps declared_def)

lemma fields_overridden_iff:
  "fields_overridden fs m attrs \<longleftrightarrow> (\<forall>f\<in>set fs. field_overridden f m attrs)"
proof (induction fs)
  case Nil
  then show ?case by simp
next
  case (Cons f fs)
  obtain name ty d where f: "f = MkField name ty d" by (cases f)
  from Cons show ?case unfolding f by (cases ty) simp_all
qed

lemma field_overridden_cong:
  assumes "map_of attrs (fname f) = map_of attrs' (fname f)"
      and "map_of m (fname f) = map_of m' (fname f)"
  shows "field_overridden f m attrs = field_overridden f m' attrs'"
proof -
  obtain name ty d where f: "f = MkField name ty d" by (cases f)
  from assms show ?thesis unfolding f by (cases ty) (simp_all split: option.splits)
qed

lemma overridden_ObjD:
  "overridden c m v \<Longrightarrow> \<exists>attrs. v = Obj c attrs \<and> fields_overridden (cfields c) m attrs"
  by (cases c; cases v) auto

lemma overridden_ObjI:
  "fields_overridden (cfields c) m attrs \<Longrightarrow> overridden c m (Obj c attrs)"
  by (cases c) auto

lemma all_missing_overridden:
  "all_missing c v = overridden c [] v"
  "fields_missing fs attrs = fields_overridden fs [] attrs"
  by (induction c v and fs attrs rule: all_missing_fields_missing.induct)
     (auto split: option.splits)

lemma same_name_same_field:
  "distinct (map fname fs) \<Longrightarrow> f \<in> set fs \<Longrightarrow> g \<in> set fs \<Longrightarrow> fname g = fname f \<Longrightarrow> g = f"
  using inj_onD[of fname "set fs" g f] by (simp add: distinct_map)

lemma map_of_snoc_new:
  "key \<notin> fst ` set seen \<Longrightarrow>
   map_of (seen @ [(key, x)]) k = (if k = key then Some x else map_of seen k)"
  by (induction seen) (auto simp: rev_image_eqI)

lemma fields_overridden_step:
  assumes dist: "distinct (map fname fs)" and f: "f \<in> set fs" and key: "fname f = key"
      and new: "key \<notin> fst ` set seen"
      and old: "fields_overridden fs seen attrs"
      and here: "field_overridden f (seen @ [(key, x)]) (AList.update key y attrs)"
  shows "fields_overridden fs (seen @ [(key, x)]) (AList.update key y attrs)"
  unfolding fields_overridden_iff
proof
  fix g assume g: "g \<in> set fs"
  show "field_overridden g (seen @ [(key, x)]) (AList.update key y attrs)"
  proof (cases "fname g = key")
    case True
    with same_name_same_field[OF dist f g] key here show ?thesis by simp
  next
    case False
    have "field_overridden g (seen @ [(key, x)]) (AList.update key y attrs)
          = field_overridden g seen attrs"
      using False by (intro field_overridden_cong) (simp_all add: update_conv' map_of_snoc_new[OF new] del: map_of_append)
    with old g show ?thesis by (simp add: fields_overridden_iff)
  qed
qed

lemma conforms_entries_head:
  assumes "conforms_entries c ((key, x) # rest)"
  shows "\<exists>f. f \<in> set (cfields c) \<and> fname f = key
           \<and> (case ftype f of
                 TScalar a \<Rightarrow> True
               | TClass c' \<Rightarrow> (\<exists>m'. x = Dict m' \<and> conforms c' m'))
           \<and> conforms_entries c rest"
proof -
  from assms obtain f where fd: "find (\<lambda>f. fname f = key) (cfields c) = Some f"
    by (auto split: option.splits)
  then have "f \<in> set (cfields c)" "fname f = key"
    by (auto simp: find_Some_iff)
  with assms fd show ?thesis
    by (cases "ftype f"; cases x) auto
qed

lemma override_on_overridden:
  "overrides = Dict m \<Longrightarrow> wf_cls c \<Longrightarrow> conforms c m \<Longrightarrow> overridden c [] cfg \<Longrightarrow>
     \<exists>r'. override_config cfg overrides = (r', None) \<and> overridden c m r'"
  "wf_cls c \<Longrightarrow> distinct (map fst (seen @ kvs)) \<Longrightarrow> conforms_entries c kvs \<Longrightarrow>
     overridden c seen cfg2 \<Longrightarrow>
     \<exists>r'. override_config_loop kvs cfg2 = (r', None) \<and> overridden c (seen @ kvs) r'"
proof (induction cfg overrides and kvs cfg2 arbitrary: m c and c seen
       rule: override_config_override_config_loop.induct)
  case (1 cfg overrides)
  from "1.prems" have it: "items overrides = Inr m" by simp
  from "1.prems"(3) have d: "distinct (map fst ([] @ m))" and ce: "conforms_entries c m"
    by simp_all
  from "1.IH"[OF it "1.prems"(2) d ce "1.prems"(4)] it show ?case by simp
next
  case (2 cfg)
  then show ?case by simp
next
  case (3 key x rest cfg)
  from overridden_ObjD[OF "3.prems"(4)] obtain attrs where
    cfg: "cfg = Obj c attrs" and fo: "fields_overridden (cfields c) seen attrs" by blast
  from conforms_entries_head[OF "3.prems"(3)] obtain f where
    f: "f \<in> set (cfields c)" and fk: "fname f = key"
    and shape: "case ftype f of TScalar a \<Rightarrow> True
                | TClass c' \<Rightarrow> (\<exists>m'. x = Dict m' \<and> conforms c' m')"
    and cr: "conforms_entries c rest" by blast
  have decl: "declared c key" using f fk by (auto simp: declared_def)
  from "3.prems"(2) have new: "key \<notin> fst ` set seen" by auto
  then have nokey: "map_of seen key = None" by (simp add: map_of_eq_None_iff)
  have dist: "distinct (map fname (cfields c))" using "3.prems"(1) by (rule wf_cls_distinct)
  have d': "distinct (map fst ((seen @ [(key, x)]) @ rest))" using "3.prems"(2) by simp
  from fo f have fok: "field_overridden f seen attrs" by (simp add: fields_overridden_iff)
  obtain ty d where fd: "f = MkField key ty d" using fk by (cases f) simp
  show ?case
  proof (cases ty)
    case (TScalar a)
    from fok TScalar fd nokey have cur: "map_of attrs key = Some (Scalar MISSING)"
      by simp
    have g: "getattr cfg key = Inr (Scalar MISSING)" using cfg decl cur by simp
    have nd: "\<not> is_dataclass (Scalar MISSING)" by simp
    let ?cfg' = "Obj c (AList.update key x attrs)"
    have s: "setattr cfg key x = Inr ?cfg'" using cfg decl by simp
    have "field_overridden f (seen @ [(key, x)]) (AList.update key x attrs)"
      using TScalar fd by (simp add: update_conv' map_of_snoc_new[OF new] del: map_of_append)
    from fields_overridden_step[OF dist f fk new fo this]
    have ov: "overridden c (seen @ [(key, x)]) ?cfg'" by (rule overridden_ObjI)
    from "3.IH"(3)[OF g nd s "3.prems"(1) d' cr ov]
    obtain r' where "override_config_loop rest ?cfg' = (r', None)"
      and "overridden c ((seen @ [(key, x)]) @ rest) r'" by blast
    with g s show ?thesis by simp
  next
    case (TClass c')
    with shape fd obtain m' where x: "x = Dict m'" and cm: "conforms c' m'" by auto
    from fok TClass fd nokey obtain sub where
      cur: "map_of attrs key = Some sub" and os: "overridden c' [] sub"
      by (auto split: option.splits)
    have g: "getattr cfg key = Inr sub" using cfg decl cur by simp
    have dc: "is_dataclass sub" using overridden_ObjD[OF os] by auto
    have wf': "wf_cls c'"
      using wf_cls_member[OF "3.prems"(1), of key c' d] f fd TClass by simp
    from "3.IH"(1)[OF g dc x wf' cm os]
    obtain sub' where oc: "override_config sub x = (sub', None)" and os': "overridden c' m' sub'"
      by blast
    let ?cfg' = "with_child cfg key sub'"
    have cfg': "?cfg' = Obj c (AList.update key sub' attrs)" using cfg by simp
    have "field_overridden f (seen @ [(key, x)]) (AList.update key sub' attrs)"
      using TClass fd x os'
      by (simp add: update_conv' map_of_snoc_new[OF new] del: map_of_append)
    from fields_overridden_step[OF dist f fk new fo this]
    have ov: "overridden c (seen @ [(key, x)]) ?cfg'"
      unfolding cfg' by (rule overridden_ObjI)
    from "3.IH"(2)[OF g dc oc[symmetric] refl "3.prems"(1) d' cr ov]
    obtain r' where "override_config_loop rest ?cfg' = (r', None)"
      and "overridden c ((seen @ [(key, x)]) @ rest) r'" by blast
    with g dc oc show ?thesis by simp
  qed
qed

text \<open>
  C6: let \<open>r\<close> be the node \<open>init_empty\<close> returns for a class with distinct field names
  at every depth; \<open>r\<close> is in the all-\<^verbatim>\<open>MISSING\<close> state.
  \<^item> For every overrides mapping that conforms to the class, with any number of entries
    and nested to any depth, \<open>override_config\<close> on \<open>r\<close> returns without raising, and
    afterwards, at every depth, each field not declared as a dataclass holds the value
    the mapping gives for it, or \<^verbatim>\<open>MISSING\<close> when the mapping does not mention it, and
    each field declared as a dataclass holds a node into which the mapping given for it
    has been walked.
  \<^item> Every field declared as a dataclass holds a node in the all-\<^verbatim>\<open>MISSING\<close> state,
    and \<open>override_config\<close> with one entry for it is the recursive call on that node,
    whatever the value.
  \<^item> Every other declared field holds \<^verbatim>\<open>MISSING\<close>, which is not a node, so
    \<open>override_config\<close> with one entry for it stores the value and raises nothing.
\<close>

theorem init_empty_then_override:
  "wf_cls c \<Longrightarrow>
   \<exists>r. init_empty (Obj c attrs) = Inr r \<and> all_missing c r
     \<and> (\<forall>m. conforms c m \<longrightarrow>
          (\<exists>r'. override_config r (Dict m) = (r', None) \<and> overridden c m r'))
     \<and> (\<forall>name c' d. MkField name (TClass c') d \<in> set (cfields c) \<longrightarrow>
          (\<exists>sub. getattr r name = Inr sub \<and> is_dataclass sub \<and> all_missing c' sub
             \<and> (\<forall>m. override_config r (Dict [(name, m)])
                     = (with_child r name (fst (override_config sub m)),
                        snd (override_config sub m)))))
     \<and> (\<forall>name a d v. MkField name (TScalar a) d \<in> set (cfields c) \<longrightarrow>
          getattr r name = Inr (Scalar MISSING)
          \<and> (\<exists>r'. override_config r (Dict [(name, v)]) = (r', None)
                \<and> getattr r' name = Inr v))"
proof -
  assume wf: "wf_cls c"
  let ?r = "Obj c (blank_attrs (cfields c) attrs)"
  have am: "all_missing c ?r" by (rule blank_all_missing(1)[OF wf])
  have general: "\<exists>r'. override_config ?r (Dict m) = (r', None) \<and> overridden c m r'"
    if cm: "conforms c m" for m
    using override_on_overridden(1)[OF refl wf cm] am
    by (simp only: all_missing_overridden(1))
  have nested: "\<exists>sub. getattr ?r name = Inr sub \<and> is_dataclass sub \<and> all_missing c' sub
             \<and> (\<forall>m. override_config ?r (Dict [(name, m)])
                     = (with_child ?r name (fst (override_config sub m)),
                        snd (override_config sub m)))"
    if f: "MkField name (TClass c') d \<in> set (cfields c)" for name c' d
  proof -
    let ?sub = "Obj c' (blank_attrs (cfields c') (default_attrs (cfields c')))"
    have g: "getattr ?r name = Inr ?sub"
      using getattr_blank[OF wf f, of attrs]
      by (simp add: init_empty_default_instance del: getattr.simps)
    have am: "all_missing c' ?sub"
      by (rule blank_all_missing(1)[OF wf_cls_member[OF wf f]])
    have dc: "is_dataclass ?sub" by simp
    from g am dc override_config_single_nested[OF g dc] show ?thesis by blast
  qed
  have leaf: "getattr ?r name = Inr (Scalar MISSING)
          \<and> (\<exists>r'. override_config ?r (Dict [(name, v)]) = (r', None)
                \<and> getattr r' name = Inr v)"
    if f: "MkField name (TScalar a) d \<in> set (cfields c)" for name a d v
  proof -
    have g: "getattr ?r name = Inr (Scalar MISSING)"
      using getattr_blank[OF wf f, of attrs] by (simp del: getattr.simps)
    have nd: "\<not> is_dataclass (Scalar MISSING)" by simp
    from override_leaf[OF g nd, of v] obtain r' where
      s: "setattr ?r name v = Inr r'" and oc: "override_config ?r (Dict [(name, v)]) = (r', None)"
      by blast
    from getattr_setattr[OF s, of name] g oc show ?thesis by simp
  qed
  show ?thesis
    using am general nested leaf
    by (intro exI[of _ ?r]) (simp add: init_empty_Obj del: getattr.simps override_config.simps)
qed

theorem init_empty_then_override_witness:
  "wf_cls Node_schema
   \<and> conforms Node_schema [(''sub'', Dict [(''y'', Scalar (PyInt 3))]), (''x'', Scalar (PyInt 7))]
   \<and> init_empty (default_instance Node_schema)
       = Inr (Obj Node_schema [(''x'', Scalar MISSING),
           (''sub'', Obj Sub_schema [(''y'', Scalar MISSING), (''z'', Scalar MISSING)])])
   \<and> override_config (Obj Node_schema [(''x'', Scalar MISSING),
           (''sub'', Obj Sub_schema [(''y'', Scalar MISSING), (''z'', Scalar MISSING)])])
        (Dict [(''sub'', Dict [(''y'', Scalar (PyInt 3))]), (''x'', Scalar (PyInt 7))])
       = (Obj Node_schema [(''x'', Scalar (PyInt 7)),
           (''sub'', Obj Sub_schema [(''y'', Scalar (PyInt 3)), (''z'', Scalar MISSING)])], None)
   \<and> overridden Node_schema
         [(''sub'', Dict [(''y'', Scalar (PyInt 3))]), (''x'', Scalar (PyInt 7))]
         (Obj Node_schema [(''x'', Scalar (PyInt 7)),
           (''sub'', Obj Sub_schema [(''y'', Scalar (PyInt 3)), (''z'', Scalar MISSING)])])"
  using init_empty_then_override[of Node_schema "default_attrs (cfields Node_schema)"]
  by (simp add: Node_schema_def Sub_schema_def init_empty.simps declared_def)

subsection \<open>Identity of the nodes that init\_empty installs\<close>

lemma in_clearjunk:
  "(k, v) \<in> set (AList.clearjunk al) \<longleftrightarrow> map_of al k = Some v"
  using map_of_eq_Some_iff[OF distinct_clearjunk, of al k v] by (simp add: map_of_clearjunk)

lemma in_obj_refs:
  "c \<in> obj_refs ob \<longleftrightarrow> (\<exists>k v. map_of (hattrs ob) k = Some v \<and> c \<in> refs_of v)"
proof
  assume "c \<in> obj_refs ob"
  then obtain k v where "(k, v) \<in> set (AList.clearjunk (hattrs ob))" "c \<in> refs_of v"
    unfolding obj_refs_def by auto
  then show "\<exists>k v. map_of (hattrs ob) k = Some v \<and> c \<in> refs_of v"
    using in_clearjunk[of k v "hattrs ob"] by blast
next
  assume "\<exists>k v. map_of (hattrs ob) k = Some v \<and> c \<in> refs_of v"
  then obtain k v where "map_of (hattrs ob) k = Some v" "c \<in> refs_of v" by blast
  then have "(k, v) \<in> set (AList.clearjunk (hattrs ob))" "c \<in> refs_of v"
    using in_clearjunk[of k v "hattrs ob"] by simp_all
  then show "c \<in> obj_refs ob"
    unfolding obj_refs_def by force
qed

lemma length_store: "length (store a name v h) = length h"
  by (simp add: store_def)

lemma store_other: "b \<noteq> a \<Longrightarrow> store a name v h ! b = h ! b"
  by (simp add: store_def)

lemma store_same:
  "a < length h \<Longrightarrow> store a name v h ! a = HObj (hclass (h ! a)) (AList.update name v (hattrs (h ! a)))"
  by (simp add: store_def)

lemma obj_refs_store:
  "a < length h \<Longrightarrow> obj_refs (store a name v h ! a) \<subseteq> obj_refs (h ! a) \<union> refs_of v"
proof
  fix x assume a: "a < length h" and "x \<in> obj_refs (store a name v h ! a)"
  then obtain k w where kw: "map_of (AList.update name v (hattrs (h ! a))) k = Some w" "x \<in> refs_of w"
    by (auto simp: in_obj_refs store_same)
  show "x \<in> obj_refs (h ! a) \<union> refs_of v"
  proof (cases "k = name")
    case True
    with kw show ?thesis by (simp add: update_conv')
  next
    case False
    with kw have "map_of (hattrs (h ! a)) k = Some w" by (simp add: update_conv')
    with kw(2) show ?thesis using in_obj_refs by blast
  qed
qed

lemma closed_from_store:
  assumes "closed_from n h" "a < length h" "refs_of v \<subseteq> {n..<length h}"
  shows "closed_from n (store a name v h)"
  unfolding closed_from_def
proof (intro allI impI)
  fix b assume b: "n \<le> b \<and> b < length (store a name v h)"
  show "obj_refs (store a name v h ! b) \<subseteq> {n..<length (store a name v h)}"
  proof (cases "b = a")
    case True
    with assms b obj_refs_store[OF assms(2), of name v] show ?thesis
      unfolding closed_from_def length_store by blast
  next
    case False
    with assms(1) b show ?thesis
      unfolding closed_from_def length_store by (simp add: store_other)
  qed
qed

lemma closed_from_extend:
  assumes "closed_from n h" "n \<le> length h"
  shows "closed_from n (h @ [HObj c []])"
  unfolding closed_from_def
proof (intro allI impI)
  fix b assume b: "n \<le> b \<and> b < length (h @ [HObj c []])"
  show "obj_refs ((h @ [HObj c []]) ! b) \<subseteq> {n..<length (h @ [HObj c []])}"
  proof (cases "b < length h")
    case True
    with assms(1) b have "obj_refs (h ! b) \<subseteq> {n..<length h}"
      unfolding closed_from_def by blast
    with True show ?thesis by (auto simp: nth_append)
  next
    case False
    with b have "b = length h" by simp
    then show ?thesis by (simp add: obj_refs_def)
  qed
qed

lemma new_instance_closed:
  "n \<le> length h \<Longrightarrow> closed_from n h \<Longrightarrow>
     fst (new_instance c h) = length h \<and> length h < length (snd (new_instance c h))
     \<and> hclass (snd (new_instance c h) ! length h) = c
     \<and> (\<forall>b<length h. snd (new_instance c h) ! b = h ! b)
     \<and> closed_from n (snd (new_instance c h))"
  "n \<le> a \<Longrightarrow> a < length h2 \<Longrightarrow> closed_from n h2 \<Longrightarrow>
     length h2 \<le> length (init_fields fs a h2)
     \<and> hclass (init_fields fs a h2 ! a) = hclass (h2 ! a)
     \<and> (\<forall>b<length h2. b \<noteq> a \<longrightarrow> init_fields fs a h2 ! b = h2 ! b)
     \<and> closed_from n (init_fields fs a h2)"
  "n \<le> length h3 \<Longrightarrow> closed_from n h3 \<Longrightarrow>
     length h3 \<le> length (snd (eval_default d h3))
     \<and> (\<forall>b<length h3. snd (eval_default d h3) ! b = h3 ! b)
     \<and> refs_of (fst (eval_default d h3)) \<subseteq> {n..<length (snd (eval_default d h3))}
     \<and> closed_from n (snd (eval_default d h3))"
proof (induction c h and fs a h2 and d h3 arbitrary: n and n and n
       rule: new_instance_init_fields_eval_default.induct)
  case (1 c' fs h)
  let ?h0 = "h @ [HObj (Cls c' fs) []]"
  have c0: "closed_from n ?h0" using closed_from_extend[OF "1.prems"(2,1)] .
  from "1.IH"[of n, OF "1.prems"(1) _ c0]
  show ?case by (auto simp: nth_append)
next
  case (2 a h)
  then show ?case by simp
next
  case (3 name ty d fs a h)
  obtain v h' where e: "eval_default d h = (v, h')" by (cases "eval_default d h")
  from "3.prems" have nh: "n \<le> length h" by simp
  from "3.IH"(1)[OF nh "3.prems"(3)] e
  have 1: "length h \<le> length h'" "\<forall>b<length h. h' ! b = h ! b"
    "refs_of v \<subseteq> {n..<length h'}" "closed_from n h'"
    by auto
  let ?h1 = "store a name v h'"
  have a': "a < length h'" using "3.prems"(2) 1(1) by simp
  have c1: "closed_from n ?h1" using closed_from_store[OF 1(4) a' 1(3)] .
  have a1: "a < length ?h1" using a' by (simp add: length_store)
  from "3.IH"(2)[OF e[symmetric] "3.prems"(1) a1 c1]
  have 2: "length ?h1 \<le> length (init_fields fs a ?h1)"
    "hclass (init_fields fs a ?h1 ! a) = hclass (?h1 ! a)"
    "\<forall>b<length ?h1. b \<noteq> a \<longrightarrow> init_fields fs a ?h1 ! b = ?h1 ! b"
    "closed_from n (init_fields fs a ?h1)"
    by auto
  have "hclass (?h1 ! a) = hclass (h ! a)"
    using a' 1(2) "3.prems"(2) by (simp add: store_same)
  moreover have "\<forall>b<length h. b \<noteq> a \<longrightarrow> init_fields fs a ?h1 ! b = h ! b"
    using 2(3) 1(1,2) by (simp add: length_store store_other)
  ultimately show ?case using e 1(1) 2 by (simp add: length_store)
next
  case (4 s h)
  then show ?case by simp
next
  case (5 c h)
  from "5.IH"[OF "5.prems"] "5.prems"(1) show ?case
    by (auto split: prod.splits)
qed

lemma setattr_h_ok:
  "cfg < length h \<Longrightarrow> declared (hclass (h ! cfg)) name \<Longrightarrow>
   setattr_h cfg name v h = Inr (store cfg name v h)"
  by (simp add: setattr_h_def)

lemma loop_post_Nil: "closed_from n h \<Longrightarrow> loop_post n cfg [] h h"
  by (simp add: loop_post_def frame_def)

lemma loop_post_store:
  assumes cfg: "cfg < length h" and v: "refs_of v \<subseteq> {n..<length h}"
      and post: "loop_post n cfg fs (store cfg name v h) h'"
  shows "loop_post n cfg (MkField name ty d # fs) h h'"
proof -
  let ?h1 = "store cfg name v h"
  from post have fr: "frame cfg ?h1 h'" and cl: "closed_from n h'"
    and cls: "hclass (h' ! cfg) = hclass (?h1 ! cfg)"
    and at: "\<forall>k w. map_of (hattrs (h' ! cfg)) k = Some w \<longrightarrow>
           refs_of w \<subseteq> {n..<length h'}
           \<or> (k \<notin> fname ` set fs \<and> map_of (hattrs (?h1 ! cfg)) k = Some w)"
    unfolding loop_post_def by blast+
  from fr have len: "length h \<le> length h'"
    by (simp add: frame_def length_store)
  have "frame cfg h h'"
    using fr by (simp add: frame_def length_store store_other)
  moreover have "hclass (h' ! cfg) = hclass (h ! cfg)"
    using cls cfg by (simp add: store_same)
  moreover have "refs_of w \<subseteq> {n..<length h'}
           \<or> (k \<notin> fname ` set (MkField name ty d # fs) \<and> map_of (hattrs (h ! cfg)) k = Some w)"
    if m: "map_of (hattrs (h' ! cfg)) k = Some w" for k w
  proof -
    from at m have "refs_of w \<subseteq> {n..<length h'}
           \<or> (k \<notin> fname ` set fs \<and> map_of (hattrs (?h1 ! cfg)) k = Some w)" by blast
    then show ?thesis
    proof
      assume "refs_of w \<subseteq> {n..<length h'}"
      then show ?thesis by simp
    next
      assume r: "k \<notin> fname ` set fs \<and> map_of (hattrs (?h1 ! cfg)) k = Some w"
      show ?thesis
      proof (cases "k = name")
        case True
        with r cfg have "w = v" by (simp add: store_same update_conv')
        with v len show ?thesis by auto
      next
        case False
        with r cfg have "map_of (hattrs (h ! cfg)) k = Some w"
          by (simp add: store_same update_conv')
        with r False show ?thesis by simp
      qed
    qed
  qed
  ultimately show ?thesis using cl unfolding loop_post_def by blast
qed

lemma loop_post_grow:
  assumes cfg: "cfg < length h" and len: "length h \<le> length h2"
      and same: "\<forall>b<length h. h2 ! b = h ! b"
      and post: "loop_post n cfg fs h2 h'"
  shows "loop_post n cfg fs h h'"
  using assms unfolding loop_post_def frame_def by auto

lemma init_empty_h_post:
  "cfg < length h \<Longrightarrow> n \<le> length h \<Longrightarrow> closed_from n h \<Longrightarrow>
     \<exists>h'. init_empty_h cfg h = Inr (cfg, h') \<and> loop_post n cfg (cfields (hclass (h ! cfg))) h h'"
  "cfg < length h2 \<Longrightarrow> n \<le> length h2 \<Longrightarrow> closed_from n h2 \<Longrightarrow>
     \<forall>f\<in>set fs. declared (hclass (h2 ! cfg)) (fname f) \<Longrightarrow>
     \<exists>h'. init_empty_loop_h fs cfg h2 = Inr h' \<and> loop_post n cfg fs h2 h'"
proof (induction cfg h and fs cfg h2 arbitrary: n and n
       rule: init_empty_h_init_empty_loop_h.induct)
  case (1 cfg h)
  have f: "fields_h cfg h = Inr (cfields (hclass (h ! cfg)))"
    using "1.prems"(1) by (simp add: fields_h_def)
  have d: "\<forall>f\<in>set (cfields (hclass (h ! cfg))). declared (hclass (h ! cfg)) (fname f)"
    by (simp add: declared_def)
  from "1.IH"[OF f "1.prems" d] f show ?case
    by (auto simp: init_empty_h.simps)
next
  case (2 cfg h)
  then show ?case by (simp add: loop_post_Nil)
next
  case (3 name ty d fs cfg h)
  from "3.prems"(4) have dn: "declared (hclass (h ! cfg)) name"
    and dfs: "\<forall>f\<in>set fs. declared (hclass (h ! cfg)) (fname f)" by simp_all
  show ?case
  proof (cases ty)
    case (TScalar a)
    let ?h1 = "store cfg name (HScalar MISSING) h"
    have s: "setattr_h cfg name (HScalar MISSING) h = Inr ?h1"
      using setattr_h_ok[OF "3.prems"(1) dn] .
    have c1: "closed_from n ?h1"
      by (rule closed_from_store[OF "3.prems"(3,1)]) simp
    have k1: "hclass (?h1 ! cfg) = hclass (h ! cfg)"
      using "3.prems"(1) by (simp add: store_same)
    from "3.IH"(1)[OF TScalar s, of n] "3.prems"(1,2) c1 dfs k1
    obtain h' where l: "init_empty_loop_h fs cfg ?h1 = Inr h'" and p: "loop_post n cfg fs ?h1 h'"
      by (auto simp: length_store)
    have "loop_post n cfg (MkField name ty d # fs) h h'"
      by (rule loop_post_store[OF "3.prems"(1) _ p]) simp
    with l s TScalar show ?thesis by simp
  next
    case (TClass c)
    obtain b h1 where ni: "new_instance c h = (b, h1)" by (cases "new_instance c h")
    from new_instance_closed(1)[OF "3.prems"(2,3), of c] ni
    have b: "b = length h" and l1: "length h < length h1" and cb: "hclass (h1 ! b) = c"
      and old1: "\<forall>a<length h. h1 ! a = h ! a" and c1: "closed_from n h1"
      by auto
    have n1: "n \<le> length h1" using "3.prems"(2) l1 by simp
    have b1: "b < length h1" using b l1 by simp
    from "3.IH"(2)[OF TClass ni[symmetric] b1 n1 c1]
    obtain h2 where ie: "init_empty_h b h1 = Inr (b, h2)"
      and p2: "loop_post n b (cfields (hclass (h1 ! b))) h1 h2" by blast
    from p2 have fr2: "frame b h1 h2" and c2: "closed_from n h2"
      unfolding loop_post_def by blast+
    from fr2 have l2: "length h1 \<le> length h2"
      and old2: "\<forall>a<length h1. a \<noteq> b \<longrightarrow> h2 ! a = h1 ! a"
      unfolding frame_def by blast+
    have old: "\<forall>a<length h. h2 ! a = h ! a"
      using old1 old2 b l1 by auto
    have cfg2: "cfg < length h2" using "3.prems"(1) l1 l2 by simp
    have k2: "hclass (h2 ! cfg) = hclass (h ! cfg)"
      using old "3.prems"(1) by simp
    let ?h3 = "store cfg name (Ref b) h2"
    have s: "setattr_h cfg name (Ref b) h2 = Inr ?h3"
      using setattr_h_ok[OF cfg2] dn k2 by simp
    have rb: "refs_of (Ref b) \<subseteq> {n..<length h2}"
      using b "3.prems"(2) l1 l2 by simp
    have c3: "closed_from n ?h3"
      by (rule closed_from_store[OF c2 cfg2 rb])
    have k3: "hclass (?h3 ! cfg) = hclass (h ! cfg)"
      using cfg2 k2 by (simp add: store_same)
    have cfg3: "cfg < length ?h3" using cfg2 by (simp add: length_store)
    have n3: "n \<le> length ?h3" using n1 l2 by (simp add: length_store)
    have d3: "\<forall>f\<in>set fs. declared (hclass (?h3 ! cfg)) (fname f)"
      using dfs k3 by simp
    from "3.IH"(3)[OF TClass ni[symmetric] ie refl s cfg3 n3 c3 d3]
    obtain h' where l: "init_empty_loop_h fs cfg ?h3 = Inr h'" and p: "loop_post n cfg fs ?h3 h'"
      by blast
    have "loop_post n cfg (MkField name ty d # fs) h2 h'"
      by (rule loop_post_store[OF cfg2 rb p])
    then have "loop_post n cfg (MkField name ty d # fs) h h'"
      using loop_post_grow[OF "3.prems"(1) _ old] l1 l2 by simp
    with l s ie ni TClass show ?thesis by simp
  qed
qed

lemma closed_from_length: "closed_from (length h) h"
  unfolding closed_from_def by auto

text \<open>
  C9: let \<open>cfg\<close> be the address of an instance whose attributes are all declared fields
  of its class. \<open>init_empty_h cfg h\<close> returns, and returns the address \<open>cfg\<close>; every
  object of \<open>h\<close> other than the one at \<open>cfg\<close> is untouched by the call; and every node of
  the returned tree other than the root \<open>cfg\<close> itself lies at an address that did not
  exist before the call. A later write through the returned tree, below its root, can
  therefore only write to objects that \<open>init_empty\<close> has created.
\<close>

theorem init_empty_h_fresh:
  assumes cfg: "cfg < length h"
      and keys: "fst ` set (hattrs (h ! cfg)) \<subseteq> fname ` set (cfields (hclass (h ! cfg)))"
  shows "\<exists>h'. init_empty_h cfg h = Inr (cfg, h')
           \<and> length h \<le> length h'
           \<and> (\<forall>b<length h. b \<noteq> cfg \<longrightarrow> h' ! b = h ! b)
           \<and> (\<forall>b\<in>reach h' cfg. b \<noteq> cfg \<longrightarrow> length h \<le> b \<and> b < length h')"
proof -
  from init_empty_h_post(1)[OF cfg le_refl closed_from_length]
  obtain h' where ie: "init_empty_h cfg h = Inr (cfg, h')"
    and p: "loop_post (length h) cfg (cfields (hclass (h ! cfg))) h h'" by blast
  from p have fr: "frame cfg h h'" and cl: "closed_from (length h) h'"
    and at: "\<forall>k v. map_of (hattrs (h' ! cfg)) k = Some v \<longrightarrow>
           refs_of v \<subseteq> {length h..<length h'}
           \<or> (k \<notin> fname ` set (cfields (hclass (h ! cfg))) \<and> map_of (hattrs (h ! cfg)) k = Some v)"
    unfolding loop_post_def by blast+
  have root: "obj_refs (h' ! cfg) \<subseteq> {length h..<length h'}"
  proof
    fix x assume "x \<in> obj_refs (h' ! cfg)"
    then obtain k v where m: "map_of (hattrs (h' ! cfg)) k = Some v" and x: "x \<in> refs_of v"
      using in_obj_refs by blast
    from at m have "refs_of v \<subseteq> {length h..<length h'}
           \<or> (k \<notin> fname ` set (cfields (hclass (h ! cfg))) \<and> map_of (hattrs (h ! cfg)) k = Some v)"
      by blast
    then show "x \<in> {length h..<length h'}"
    proof
      assume "refs_of v \<subseteq> {length h..<length h'}"
      with x show ?thesis by blast
    next
      assume r: "k \<notin> fname ` set (cfields (hclass (h ! cfg))) \<and> map_of (hattrs (h ! cfg)) k = Some v"
      then have "(k, v) \<in> set (hattrs (h ! cfg))"
        by (simp add: map_of_SomeD)
      then have "k \<in> fst ` set (hattrs (h ! cfg))"
        by force
      with keys r show ?thesis by blast
    qed
  qed
  have "b = cfg \<or> (length h \<le> b \<and> b < length h')" if "b \<in> reach h' cfg" for b
    using that
  proof (induction rule: reach.induct)
    case root
    then show ?case by simp
  next
    case (step b c)
    from step.IH show ?case
    proof
      assume "b = cfg"
      with step.hyps(3) root show ?thesis by auto
    next
      assume "length h \<le> b \<and> b < length h'"
      with cl step.hyps(3) show ?thesis
        unfolding closed_from_def by (meson atLeastLessThan_iff subsetD)
    qed
  qed
  with ie fr show ?thesis unfolding frame_def by blast
qed

theorem init_empty_h_fresh_witness:
  "(0::nat) < length [HObj Node_schema [(''x'', HScalar (PyInt 5)), (''sub'', Ref 1)],
                      HObj Sub_schema [(''y'', HScalar (PyInt 1)), (''z'', HScalar (PyInt 2))]]
   \<and> fst ` set (hattrs ([HObj Node_schema [(''x'', HScalar (PyInt 5)), (''sub'', Ref 1)],
                      HObj Sub_schema [(''y'', HScalar (PyInt 1)), (''z'', HScalar (PyInt 2))]] ! 0))
       \<subseteq> fname ` set (cfields Node_schema)
   \<and> init_empty_h 0 [HObj Node_schema [(''x'', HScalar (PyInt 5)), (''sub'', Ref 1)],
                      HObj Sub_schema [(''y'', HScalar (PyInt 1)), (''z'', HScalar (PyInt 2))]]
       = Inr (0, [HObj Node_schema [(''x'', HScalar MISSING), (''sub'', Ref 2)],
                  HObj Sub_schema [(''y'', HScalar (PyInt 1)), (''z'', HScalar (PyInt 2))],
                  HObj Sub_schema [(''y'', HScalar MISSING), (''z'', HScalar MISSING)]])
   \<and> 1 \<notin> reach [HObj Node_schema [(''x'', HScalar MISSING), (''sub'', Ref 2)],
                  HObj Sub_schema [(''y'', HScalar (PyInt 1)), (''z'', HScalar (PyInt 2))],
                  HObj Sub_schema [(''y'', HScalar MISSING), (''z'', HScalar MISSING)]] 0"
proof -
  let ?h = "[HObj Node_schema [(''x'', HScalar (PyInt 5)), (''sub'', Ref 1)],
             HObj Sub_schema [(''y'', HScalar (PyInt 1)), (''z'', HScalar (PyInt 2))]]"
  have ev: "init_empty_h 0 ?h
       = Inr (0, [HObj Node_schema [(''x'', HScalar MISSING), (''sub'', Ref 2)],
                  HObj Sub_schema [(''y'', HScalar (PyInt 1)), (''z'', HScalar (PyInt 2))],
                  HObj Sub_schema [(''y'', HScalar MISSING), (''z'', HScalar MISSING)]])"
    by (simp add: init_empty_h.simps fields_h_def setattr_h_def store_def declared_def
          Node_schema_def Sub_schema_def)
  have len: "(0::nat) < length ?h" by simp
  have keys: "fst ` set (hattrs (?h ! 0)) \<subseteq> fname ` set (cfields (hclass (?h ! 0)))"
    by (simp add: Node_schema_def)
  from init_empty_h_fresh[OF len keys] ev keys len show ?thesis
    by (auto simp: numeral_2_eq_2)
qed

subsection \<open>The all-MISSING state and the node returned\<close>

lemma all_missing_h_kept:
  "all_missing_h c h a \<Longrightarrow> length h \<le> length h' \<Longrightarrow>
     \<forall>x<length h. a \<le> x \<longrightarrow> h' ! x = h ! x \<Longrightarrow> all_missing_h c h' a"
  "fields_missing_h fs h a \<Longrightarrow> a < length h \<Longrightarrow> length h \<le> length h' \<Longrightarrow>
     \<forall>x<length h. a \<le> x \<longrightarrow> h' ! x = h ! x \<Longrightarrow> fields_missing_h fs h' a"
proof (induction c h a and fs h a rule: all_missing_h_fields_missing_h.induct)
  case (1 n fs h a)
  then show ?case by auto
next
  case (2 h a)
  then show ?case by simp
next
  case (3 name t d fs h a)
  then show ?case by auto
next
  case (4 name c d fs h a)
  from "4.prems" have same: "h' ! a = h ! a" by simp
  from "4.prems"(1) obtain b where
    m: "map_of (hattrs (h ! a)) name = Some (Ref b)" and ab: "a < b"
    and am: "all_missing_h c h b" and rest: "fields_missing_h fs h a"
    by (auto split: option.splits hval.splits)
  have "\<forall>x<length h. b \<le> x \<longrightarrow> h' ! x = h ! x"
    using "4.prems"(4) ab by auto
  from "4.IH"(1)[OF m refl am "4.prems"(3) this] "4.IH"(2)[OF rest "4.prems"(2,3,4)] m ab same
  show ?case by simp
qed


lemma init_empty_h_frame:
  assumes "cfg < length h" "init_empty_h cfg h = Inr (r, h')"
  shows "r = cfg \<and> length h \<le> length h' \<and> hclass (h' ! cfg) = hclass (h ! cfg)
         \<and> (\<forall>x<length h. x \<noteq> cfg \<longrightarrow> h' ! x = h ! x)"
  using init_empty_h_post(1)[OF assms(1) le_refl closed_from_length] assms(2)
  unfolding loop_post_def frame_def by auto

lemma init_empty_loop_h_frame:
  assumes "cfg < length h" "\<forall>f\<in>set fs. declared (hclass (h ! cfg)) (fname f)"
      and "init_empty_loop_h fs cfg h = Inr h'"
  shows "length h \<le> length h' \<and> hclass (h' ! cfg) = hclass (h ! cfg)
         \<and> (\<forall>x<length h. x \<noteq> cfg \<longrightarrow> h' ! x = h ! x)"
  using init_empty_h_post(2)[OF assms(1) le_refl closed_from_length assms(2)] assms(3)
  unfolding loop_post_def frame_def by auto

lemma new_instance_frame:
  assumes "new_instance c h = (b, h1)"
  shows "b = length h \<and> length h < length h1 \<and> hclass (h1 ! b) = c
         \<and> (\<forall>x<length h. h1 ! x = h ! x)"
  using new_instance_closed(1)[OF le_refl closed_from_length, where c = c and h = h] assms by auto

lemma init_empty_h_all_missing:
  "cfg < length h \<Longrightarrow> wf_cls (hclass (h ! cfg)) \<Longrightarrow> init_empty_h cfg h = Inr (r, h') \<Longrightarrow>
     all_missing_h (hclass (h ! cfg)) h' cfg"
  "cfg < length h2 \<Longrightarrow> distinct (map fname fs) \<Longrightarrow> wf_fields fs \<Longrightarrow>
     \<forall>f\<in>set fs. declared (hclass (h2 ! cfg)) (fname f) \<Longrightarrow>
     init_empty_loop_h fs cfg h2 = Inr h'' \<Longrightarrow>
     fields_missing_h fs h'' cfg
     \<and> (\<forall>k. k \<notin> fname ` set fs \<longrightarrow>
            map_of (hattrs (h'' ! cfg)) k = map_of (hattrs (h2 ! cfg)) k)"
proof (induction cfg h and fs cfg h2 arbitrary: r h' and h''
       rule: init_empty_h_init_empty_loop_h.induct)
  case (1 cfg h)
  obtain n fs where c: "hclass (h ! cfg) = Cls n fs" by (cases "hclass (h ! cfg)")
  have f: "fields_h cfg h = Inr fs"
    using "1.prems"(1) c by (simp add: fields_h_def)
  from "1.prems"(3) f have l: "init_empty_loop_h fs cfg h = Inr h'"
    by (simp add: init_empty_h.simps split: sum.splits)
  have d: "\<forall>f\<in>set fs. declared (hclass (h ! cfg)) (fname f)"
    using c by (simp add: declared_def)
  from "1.prems"(2) c have wf: "distinct (map fname fs)" "wf_fields fs" by simp_all
  from "1.IH"[OF f "1.prems"(1) wf d l] have fm: "fields_missing_h fs h' cfg" by simp
  from init_empty_loop_h_frame[OF "1.prems"(1) d l] "1.prems"(1) c fm
  show ?case by simp
next
  case (2 cfg h)
  then show ?case by simp
next
  case (3 name ty d fs cfg h)
  from "3.prems"(4) have dn: "declared (hclass (h ! cfg)) name"
    and dfs: "\<forall>f\<in>set fs. declared (hclass (h ! cfg)) (fname f)" by simp_all
  from "3.prems"(2) have nn: "name \<notin> fname ` set fs" and dist: "distinct (map fname fs)"
    by auto
  show ?case
  proof (cases ty)
    case (TScalar t)
    let ?h1 = "store cfg name (HScalar MISSING) h"
    have s: "setattr_h cfg name (HScalar MISSING) h = Inr ?h1"
      using setattr_h_ok[OF "3.prems"(1) dn] .
    from "3.prems"(5) TScalar s have l: "init_empty_loop_h fs cfg ?h1 = Inr h''" by simp
    have k1: "hclass (?h1 ! cfg) = hclass (h ! cfg)"
      using "3.prems"(1) by (simp add: store_same)
    have cfg1: "cfg < length ?h1" using "3.prems"(1) by (simp add: length_store)
    from "3.prems"(3) TScalar have wfs: "wf_fields fs" by simp
    from "3.IH"(1)[OF TScalar s cfg1 dist wfs _ l] dfs k1
    have fm: "fields_missing_h fs h'' cfg"
      and oth: "\<forall>k. k \<notin> fname ` set fs \<longrightarrow>
            map_of (hattrs (h'' ! cfg)) k = map_of (hattrs (?h1 ! cfg)) k"
      by simp_all
    from oth nn "3.prems"(1) have "map_of (hattrs (h'' ! cfg)) name = Some (HScalar MISSING)"
      by (simp add: store_same update_conv')
    moreover from oth "3.prems"(1)
    have "\<forall>k. k \<notin> fname ` set (MkField name ty d # fs) \<longrightarrow>
            map_of (hattrs (h'' ! cfg)) k = map_of (hattrs (h ! cfg)) k"
      by (simp add: store_same update_conv')
    ultimately show ?thesis using fm TScalar by simp
  next
    case (TClass c)
    obtain b h1 where ni: "new_instance c h = (b, h1)" by (cases "new_instance c h")
    from new_instance_frame[OF ni]
    have b: "b = length h" and l1: "length h < length h1" and cb: "hclass (h1 ! b) = c"
      and old1: "\<forall>x<length h. h1 ! x = h ! x" by auto
    have b1: "b < length h1" using b l1 by simp
    from "3.prems"(5) TClass ni obtain sub h2 where ie: "init_empty_h b h1 = Inr (sub, h2)"
      by (auto split: sum.splits)
    from init_empty_h_frame[OF b1 ie]
    have sub: "sub = b" and l2: "length h1 \<le> length h2"
      and old2: "\<forall>x<length h1. x \<noteq> b \<longrightarrow> h2 ! x = h1 ! x" by auto
    from "3.prems"(3) TClass have wfc: "wf_cls c" and wfs: "wf_fields fs" by simp_all
    from "3.IH"(2)[OF TClass ni[symmetric] b1 _ ie] wfc cb
    have am2: "all_missing_h c h2 b" by simp
    have cfgb: "cfg < b" using "3.prems"(1) b by simp
    have cfg2: "cfg < length h2" using "3.prems"(1) l1 l2 by simp
    have same2: "h2 ! cfg = h ! cfg"
      using old1 old2 "3.prems"(1) l1 cfgb by auto
    let ?h3 = "store cfg name (Ref b) h2"
    have s: "setattr_h cfg name (Ref b) h2 = Inr ?h3"
      using setattr_h_ok[OF cfg2] dn same2 by simp
    from "3.prems"(5) TClass ni ie sub s have l: "init_empty_loop_h fs cfg ?h3 = Inr h''"
      by simp
    have k3: "hclass (?h3 ! cfg) = hclass (h ! cfg)"
      using cfg2 same2 by (simp add: store_same)
    have cfg3: "cfg < length ?h3" using cfg2 by (simp add: length_store)
    have d3: "\<forall>f\<in>set fs. declared (hclass (?h3 ! cfg)) (fname f)"
      using dfs k3 by simp
    from "3.IH"(3)[OF TClass ni[symmetric] ie _ _ cfg3 dist wfs d3 l] sub s
    have fm: "fields_missing_h fs h'' cfg"
      and oth: "\<forall>k. k \<notin> fname ` set fs \<longrightarrow>
            map_of (hattrs (h'' ! cfg)) k = map_of (hattrs (?h3 ! cfg)) k"
      by simp_all
    from init_empty_loop_h_frame[OF cfg3 d3 l]
    have l3: "length ?h3 \<le> length h''"
      and old3: "\<forall>x<length ?h3. x \<noteq> cfg \<longrightarrow> h'' ! x = ?h3 ! x" by auto
    have "\<forall>x<length h2. b \<le> x \<longrightarrow> h'' ! x = h2 ! x"
      using old3 cfgb by (simp add: length_store store_other)
    from all_missing_h_kept(1)[OF am2 _ this] l3
    have am: "all_missing_h c h'' b" by (simp add: length_store)
    from oth nn cfg2 have "map_of (hattrs (h'' ! cfg)) name = Some (Ref b)"
      by (simp add: store_same update_conv')
    moreover from oth cfg2 same2
    have "\<forall>k. k \<notin> fname ` set (MkField name ty d # fs) \<longrightarrow>
            map_of (hattrs (h'' ! cfg)) k = map_of (hattrs (h ! cfg)) k"
      by (simp add: store_same update_conv')
    ultimately show ?thesis using fm am cfgb TClass by simp
  qed
qed

text \<open>
  C3: for a class with distinct field names at every depth, \<open>init_empty\<close> on any instance
  returns (it raises nothing) and leaves the node in the all-\<^verbatim>\<open>MISSING\<close> state: every
  field at every depth whose declared type is not a dataclass holds \<^verbatim>\<open>MISSING\<close>, every
  field declared as a dataclass holds an instance of that dataclass. The node returned is
  the node given: in the tree it is the node the loop has mutated, with its class; in the
  store the call returns the address it was given, and the object at that address is in
  the all-\<^verbatim>\<open>MISSING\<close> state.
\<close>

theorem init_empty_all_missing:
  "wf_cls c \<Longrightarrow>
   (\<exists>attrs'. init_empty (Obj c attrs) = Inr (Obj c attrs') \<and> all_missing c (Obj c attrs'))
   \<and> (cfg < length h \<and> hclass (h ! cfg) = c \<longrightarrow>
        (\<exists>h'. init_empty_h cfg h = Inr (cfg, h') \<and> all_missing_h c h' cfg))"
proof (intro conjI impI)
  assume "wf_cls c"
  then show "\<exists>attrs'. init_empty (Obj c attrs) = Inr (Obj c attrs') \<and> all_missing c (Obj c attrs')"
    by (simp add: init_empty_Obj blank_all_missing(1))
next
  assume wf: "wf_cls c" and a: "cfg < length h \<and> hclass (h ! cfg) = c"
  then have cfg: "cfg < length h" and c: "hclass (h ! cfg) = c" by simp_all
  from init_empty_h_post(1)[OF cfg le_refl closed_from_length]
  obtain h' where ie: "init_empty_h cfg h = Inr (cfg, h')" by blast
  from init_empty_h_all_missing(1)[OF cfg _ ie] wf c
  have "all_missing_h c h' cfg" by simp
  with ie show "\<exists>h'. init_empty_h cfg h = Inr (cfg, h') \<and> all_missing_h c h' cfg" by blast
qed

theorem init_empty_all_missing_witness:
  "wf_cls Node_schema
   \<and> init_empty (default_instance Node_schema)
       = Inr (Obj Node_schema [(''x'', Scalar MISSING),
           (''sub'', Obj Sub_schema [(''y'', Scalar MISSING), (''z'', Scalar MISSING)])])
   \<and> all_missing Node_schema (Obj Node_schema [(''x'', Scalar MISSING),
           (''sub'', Obj Sub_schema [(''y'', Scalar MISSING), (''z'', Scalar MISSING)])])
   \<and> init_empty_h 0 [HObj Node_schema [(''x'', HScalar (PyInt 5)), (''sub'', Ref 1)],
                      HObj Sub_schema [(''y'', HScalar (PyInt 1)), (''z'', HScalar (PyInt 2))]]
       = Inr (0, [HObj Node_schema [(''x'', HScalar MISSING), (''sub'', Ref 2)],
                  HObj Sub_schema [(''y'', HScalar (PyInt 1)), (''z'', HScalar (PyInt 2))],
                  HObj Sub_schema [(''y'', HScalar MISSING), (''z'', HScalar MISSING)]])
   \<and> all_missing_h Node_schema
         [HObj Node_schema [(''x'', HScalar MISSING), (''sub'', Ref 2)],
          HObj Sub_schema [(''y'', HScalar (PyInt 1)), (''z'', HScalar (PyInt 2))],
          HObj Sub_schema [(''y'', HScalar MISSING), (''z'', HScalar MISSING)]] 0"
  using init_empty_all_missing
    [of Node_schema "default_attrs (cfields Node_schema)" 0
        "[HObj Node_schema [(''x'', HScalar (PyInt 5)), (''sub'', Ref 1)],
          HObj Sub_schema [(''y'', HScalar (PyInt 1)), (''z'', HScalar (PyInt 2))]]"]
  by (simp add: Node_schema_def Sub_schema_def init_empty.simps declared_def
        init_empty_h.simps fields_h_def setattr_h_def store_def)

end
